theory Spec2Isabelle
  imports Complex_Main "HOL-Library.Product_Lexorder" "HOL-Library.Multiset"
    "HOL-Library.Char_ord" "HOL-Library.List_Lexorder"
begin

section \<open>Python text primitives used by exoclasma\_note.py\<close>

text \<open>
  A Python \<open>str\<close> is modelled as a HOL \<open>string\<close>; a \<open>char\<close> stands for one code
  point in the range U+0000..U+00FF. Text with code points above U+00FF is outside this
  model. The functions of this section are the methods and builtins of Python that the
  source calls (\<open>str.split\<close>, \<open>str.join\<close>, \<open>int\<close>, \<open>str\<close>) on that range.
\<close>

text \<open>\<open>s.split(sep)\<close> for a separator of one character: never an empty list.\<close>

fun str_split :: "'a \<Rightarrow> 'a list \<Rightarrow> 'a list list" where
  "str_split sep [] = [[]]"
| "str_split sep (c # cs) =
     (if c = sep then [] # str_split sep cs
      else (case str_split sep cs of
              [] \<Rightarrow> [[c]]
            | w # ws \<Rightarrow> (c # w) # ws))"

text \<open>\<open>sep.join(items)\<close>.\<close>

fun str_join :: "'a list \<Rightarrow> 'a list list \<Rightarrow> 'a list" where
  "str_join sep [] = []"
| "str_join sep [w] = w"
| "str_join sep (w # v # ws) = w @ sep @ str_join sep (v # ws)"

text \<open>
  The characters \<open>int()\<close> strips from both ends of its argument: the ASCII white space
  \<open>\t \n \v \f \r\<close> and the blank, and U+0085 and U+00A0.
\<close>

definition is_space :: "char \<Rightarrow> bool" where
  "is_space c = ((of_char c :: nat) \<in> {9, 10, 11, 12, 13, 32, 133, 160})"

definition is_digit :: "char \<Rightarrow> bool" where
  "is_digit c = (48 \<le> (of_char c :: nat) \<and> (of_char c :: nat) \<le> 57)"

definition digit_val :: "char \<Rightarrow> nat" where
  "digit_val c = of_char c - 48"

definition strip :: "string \<Rightarrow> string" where
  "strip s = rev (dropWhile is_space (rev (dropWhile is_space s)))"

text \<open>
  The digits of a decimal literal after its first digit: single underscores are allowed
  between digits, nothing else is.
\<close>

fun int_body :: "string \<Rightarrow> nat \<Rightarrow> nat option" where
  "int_body [] acc = Some acc"
| "int_body [c] acc = (if is_digit c then Some (10 * acc + digit_val c) else None)"
| "int_body (c # d # ds) acc =
     (if is_digit c then int_body (d # ds) (10 * acc + digit_val c)
      else if c = CHR ''_'' \<and> is_digit d then int_body ds (10 * acc + digit_val d)
      else None)"

definition int_digits :: "string \<Rightarrow> nat option" where
  "int_digits s =
     (case s of
        [] \<Rightarrow> None
      | c # cs \<Rightarrow> if is_digit c then int_body cs (digit_val c) else None)"

text \<open>
  \<open>int(s)\<close> in base ten; \<open>None\<close> is the \<open>ValueError\<close>. The interpreter's optional
  limit on the number of digits (\<open>sys.set_int_max_str_digits\<close>) is taken to be off.
\<close>

definition py_int :: "string \<Rightarrow> int option" where
  "py_int s =
     (case strip s of
        [] \<Rightarrow> None
      | c # cs \<Rightarrow>
          if c = CHR ''-'' then map_option (\<lambda>n. - int n) (int_digits cs)
          else if c = CHR ''+'' then map_option int (int_digits cs)
          else map_option int (int_digits (c # cs)))"

section \<open>AnnoFit: global and format functions\<close>

text \<open>
  \<^verbatim>\<open>
  def FormatInt(String: str) -> Union[int, None]:
      try: return int(String)
      except ValueError: return None
  \<close>
\<close>

definition FormatInt :: "string \<Rightarrow> int option" where
  "FormatInt String = py_int String"

text \<open>
  \<^verbatim>\<open>
  def FormatGenotype(Str: str) -> str:
      Lst = [FormatInt(item) for item in Str.split('/')]
      if (len(Lst) != 2) or any([item is None for item in Lst]): return '.'
      return ('HOMO' if ((Lst[0] == Lst[1]) and (Lst[0] != 0)) else Str)
  \<close>
\<close>

definition FormatGenotype :: "string \<Rightarrow> string" where
  "FormatGenotype Str =
     (let Lst = map FormatInt (str_split CHR ''/'' Str)
      in if length Lst \<noteq> 2 \<or> list_ex (\<lambda>item. item = None) Lst then ''.''
         else if Lst ! 0 = Lst ! 1 \<and> Lst ! 0 \<noteq> Some 0 then ''HOMO''
         else Str)"

text \<open>
  A Python \<open>dict\<close> as an association list in insertion order: assigning to a key that
  is present replaces its value in place, assigning to a new key appends it.
\<close>

fun dict_set :: "('k \<times> 'v) list \<Rightarrow> 'k \<Rightarrow> 'v \<Rightarrow> ('k \<times> 'v) list" where
  "dict_set [] k v = [(k, v)]"
| "dict_set ((k', v') # kvs) k v =
     (if k' = k then (k, v) # kvs else (k', v') # dict_set kvs k v)"

text \<open>
  One row as \<open>FormatVcfMetadata\<close> reads it: the two VCF columns and the row's index
  label (\<open>Block.name\<close>).
\<close>

record 'n vcf_block =
  VCF_FORMAT :: string
  VCF_SAMPLE :: string
  name :: 'n

text \<open>The values of the dictionary it returns: the row label, or a piece of text.\<close>

datatype 'n field = Label 'n | Text string

text \<open>
  \<^verbatim>\<open>
  def FormatVcfMetadata(Block: pandas.Series) -> dict:
      Block = {"Header": Block["VCF.FORMAT"], "Data": Block["VCF.SAMPLE"], "Name": Block.name}
      Block["Header"] = [f"VCF.{item}" for item in str(Block["Header"]).split(":")]
      Block["Data"] = str(Block["Data"]).split(":")
      Result = {"Name": Block["Name"]}
      if len(Block["Header"]) != len(Block["Data"]): return Result
      for Num in range(len(Block["Header"])): Result[Block["Header"][Num]] = Block["Data"][Num]
      return Result
  \<close>
\<close>

definition FormatVcfMetadata :: "'n vcf_block \<Rightarrow> (string \<times> 'n field) list" where
  "FormatVcfMetadata Block =
     (let Header = map (\<lambda>item. ''VCF.'' @ item) (str_split CHR '':'' (VCF_FORMAT Block));
          Data = str_split CHR '':'' (VCF_SAMPLE Block);
          Result = [(''Name'', Label (name Block))]
      in if length Header \<noteq> length Data then Result
         else fold (\<lambda>Num Result. dict_set Result (Header ! Num) (Text (Data ! Num)))
                [0..<length Header] Result)"

text \<open>
  \<open>str(n)\<close> for an integer: its decimal digits, with a minus sign when negative.
\<close>

definition digit_char :: "nat \<Rightarrow> char" where
  "digit_char d = ''0123456789'' ! d"

fun str_nat :: "nat \<Rightarrow> string" where
  "str_nat n = (if n < 10 then [digit_char n] else str_nat (n div 10) @ [digit_char (n mod 10)])"

declare str_nat.simps [simp del]

definition str_int :: "int \<Rightarrow> string" where
  "str_int i = (if i < 0 then CHR ''-'' # str_nat (nat (- i)) else str_nat (nat i))"

text \<open>
  \<open>s.lower()\<close>, and the class \<open>\w\<close> of the \<open>re\<close> module for a \<open>str\<close> pattern
  (letters, digits and the underscore), both on U+0000..U+00FF.
\<close>

definition lower_char :: "char \<Rightarrow> char" where
  "lower_char c =
     (let n = (of_char c :: nat)
      in if (65 \<le> n \<and> n \<le> 90) \<or> (192 \<le> n \<and> n \<le> 222 \<and> n \<noteq> 215)
         then char_of (n + 32) else c)"

definition lower :: "string \<Rightarrow> string" where
  "lower s = map lower_char s"

definition is_word :: "char \<Rightarrow> bool" where
  "is_word c =
     (let n = (of_char c :: nat)
      in (48 \<le> n \<and> n \<le> 57) \<or> (65 \<le> n \<and> n \<le> 90) \<or> n = 95 \<or> (97 \<le> n \<and> n \<le> 122)
         \<or> n = 170 \<or> n = 178 \<or> n = 179 \<or> n = 181 \<or> n = 185 \<or> n = 186
         \<or> (188 \<le> n \<and> n \<le> 190) \<or> (192 \<le> n \<and> n \<le> 214)
         \<or> (216 \<le> n \<and> n \<le> 246) \<or> 248 \<le> n)"

text \<open>
  \<open>str(xs)\<close> for a list of strings, as the source applies it to the literal
  \<open>["Disease_description"]\<close>: the items in single quotes, separated by a comma and a
  blank, in square brackets. (The quoting of \<open>repr\<close> is this simple for text without
  quotes, backslashes and unprintable characters.)
\<close>

definition repr_str :: "string \<Rightarrow> string" where
  "repr_str s = [CHR 0x27] @ s @ [CHR 0x27]"

definition str_list :: "string list \<Rightarrow> string" where
  "str_list xs = ''['' @ str_join '', '' (map repr_str xs) @ '']''"

text \<open>
  Whether the pattern \<open>[\W]lit[\W]\<close> matches at the head of \<open>s\<close>: a character that
  is not a word character, the literal, and again a character that is not a word character.
\<close>

definition match_W_lit_W :: "string \<Rightarrow> string \<Rightarrow> bool" where
  "match_W_lit_W lit s =
     (case s of
        [] \<Rightarrow> False
      | c # r \<Rightarrow>
          \<not> is_word c \<and> take (length lit) r = lit \<and>
          (case drop (length lit) r of [] \<Rightarrow> False | d # _ \<Rightarrow> \<not> is_word d))"

text \<open>
  \<open>re.findall('[\W]dominant[\W]', s)\<close>: the matches from left to right, the search
  resuming behind each match.
\<close>

fun findall_dominant :: "string \<Rightarrow> string list" where
  "findall_dominant [] = []"
| "findall_dominant (c # cs) =
     (if match_W_lit_W ''dominant'' (c # cs)
      then take 10 (c # cs) # findall_dominant (drop 9 cs)
      else findall_dominant cs)"

text \<open>
  \<open>re.findall('([\W]dominant[\W])|([\W]recessive[\W])', s)\<close>: with two groups in the
  pattern each match is the pair of what the groups matched, the other one empty.
\<close>

fun findall_dominant_recessive :: "string \<Rightarrow> (string \<times> string) list" where
  "findall_dominant_recessive [] = []"
| "findall_dominant_recessive (c # cs) =
     (if match_W_lit_W ''dominant'' (c # cs)
      then (take 10 (c # cs), []) # findall_dominant_recessive (drop 9 cs)
      else if match_W_lit_W ''recessive'' (c # cs)
      then ([], take 11 (c # cs)) # findall_dominant_recessive (drop 10 cs)
      else findall_dominant_recessive cs)"

section \<open>Errors\<close>

text \<open>The exceptions the modelled code can raise; a result is \<open>Inl\<close> of one or \<open>Inr\<close> of a value.\<close>

datatype error =
    RuntimeError | KeyError | IndexError | ValueError | TypeError
  | Binascii_Error | UnicodeDecodeError | JSONDecodeError

fun and_then :: "'e + 'a \<Rightarrow> ('a \<Rightarrow> 'e + 'b) \<Rightarrow> 'e + 'b" where
  "and_then (Inl e) f = Inl e"
| "and_then (Inr a) f = f a"

text \<open>A list comprehension (or a row-wise \<open>apply\<close>) whose body may raise: the first error ends it.\<close>

fun collect :: "('a \<Rightarrow> 'e + 'b) \<Rightarrow> 'a list \<Rightarrow> 'e + 'b list" where
  "collect f [] = Inr []"
| "collect f (x # xs) = and_then (f x) (\<lambda>y. and_then (collect f xs) (\<lambda>ys. Inr (y # ys)))"

section \<open>AnnoFit: filter functions and the dominance filtering\<close>

text \<open>
  \<^verbatim>\<open>
  def FormatFloat(String: str) -> Union[float, None]:
      try: return float(String)
      except ValueError: return None
  \<close>
  Floating-point numbers are not modelled. The builtin \<open>float\<close> is a parameter
  \<open>py_float\<close> (\<open>None\<close> where it raises \<open>ValueError\<close>) into a type \<open>'f\<close> of floats, and
  a comparison with a constant is a parameter of type \<open>'f \<Rightarrow> bool\<close>.
\<close>

definition FormatFloat :: "(string \<Rightarrow> 'f option) \<Rightarrow> string \<Rightarrow> 'f option" where
  "FormatFloat py_float String = py_float String"

text \<open>
  \<^verbatim>\<open>
  def FilterpLi(Str: str) -> bool:
      Result = [FormatFloat(item) for item in Str.split(';')]
      return (False if any([item is None for item in Result]) else any([item >= 0.9 for item in Result]))
  FilterOmimDominance = lambda x: len(re.findall('[\W]dominant[\W]', str(x).lower())) != 0
  FilterNoInfo = lambda x: (x["pLi"] == '.') and (x["Disease_description"] == '.') or (len(re.findall('([\W]dominant[\W])|([\W]recessive[\W])', str(["Disease_description"]).lower())) == 0)
  \<close>
\<close>

definition FilterpLi :: "(string \<Rightarrow> 'f option) \<Rightarrow> ('f \<Rightarrow> bool) \<Rightarrow> string \<Rightarrow> bool" where
  "FilterpLi py_float ge Str =
     (let Result = map (FormatFloat py_float) (str_split CHR '';'' Str)
      in if list_ex (\<lambda>item. item = None) Result then False
         else list_ex (\<lambda>item. case item of None \<Rightarrow> False | Some v \<Rightarrow> ge v) Result)"

definition FilterOmimDominance :: "string \<Rightarrow> bool" where
  "FilterOmimDominance x = (length (findall_dominant (lower x)) \<noteq> 0)"

text \<open>The columns of the assembled result that the dominance filtering reads or writes.\<close>

record variant =
  pLi :: string
  Disease_description :: string
  VCF_GT :: string
  AnnoFit_GeneName :: string
  Annofit_Compound :: string

definition FilterNoInfo :: "'a variant_scheme \<Rightarrow> bool" where
  "FilterNoInfo x =
     ((pLi x = ''.'' \<and> Disease_description x = ''.'')
      \<or> length (findall_dominant_recessive (lower (str_list [''Disease_description'']))) = 0)"

text \<open>
  \<open>series.value_counts()[True]\<close> on a series of booleans: the number of \<open>True\<close>, and
  a \<open>KeyError\<close> when there is none.
\<close>

definition value_counts_True :: "bool list \<Rightarrow> error + nat" where
  "value_counts_True bs =
     (let n = length (filter (\<lambda>b. b) bs) in if n = 0 then Inl KeyError else Inr n)"

text \<open>
  \<^verbatim>\<open>
  Result['Annofit.Compound'] = Result['AnnoFit.GeneName'].parallel_apply(lambda x:
      ';'.join([str(Result['AnnoFit.GeneName'].apply(lambda y: gene in y.split(';')).value_counts()[True])
                for gene in x.split(';')]))
  \<close>
\<close>

definition Compound :: "string list \<Rightarrow> string \<Rightarrow> error + string" where
  "Compound GeneNames x =
     and_then
       (collect
          (\<lambda>gene. and_then
             (value_counts_True (map (\<lambda>y. gene \<in> set (str_split CHR '';'' y)) GeneNames))
             (\<lambda>n. Inr (str_int (int n))))
          (str_split CHR '';'' x))
       (\<lambda>counts. Inr (str_join '';'' counts))"

text \<open>
  \<^verbatim>\<open>
  Filters["Compound_filter"] = Result['Annofit.Compound'].parallel_apply(
      lambda x: any([int(item) > 1 for item in x.split(';')]))
  \<close>
\<close>

definition Compound_filter :: "string \<Rightarrow> error + bool" where
  "Compound_filter x =
     and_then
       (collect (\<lambda>item. case py_int item of None \<Rightarrow> Inl ValueError | Some i \<Rightarrow> Inr (1 < i))
          (str_split CHR '';'' x))
       (\<lambda>flags. Inr (list_ex (\<lambda>b. b) flags))"

text \<open>
  The compound column and the dominance filtering of \<open>AnnoFit\<close> with
  \<open>Filtering == "full"\<close>. The field \<open>Annofit_Compound\<close> of the rows given is
  overwritten, as the assignment to the column does.
  \<^verbatim>\<open>
  Filters["pLi"] = Result["pLi"].parallel_apply(FilterpLi)
  Filters["OMIM_Dominance"] = Result["Disease_description"].parallel_apply(FilterOmimDominance)
  Filters["Zygocity"] = Result["VCF.GT"].parallel_apply(lambda x: x == 'HOMO')
  Filters["NoInfo"] = Result[["pLi", "Disease_description"]].parallel_apply(FilterNoInfo, axis=1)
  Filters["Compound_filter"] = ...
  Result = Result[ Filters["Compound_filter"] | Filters["pLi"] | Filters["OMIM_Dominance"]
                   | Filters["Zygocity"] | Filters["NoInfo"] ]
  \<close>
\<close>

definition DominanceFiltering ::
  "(string \<Rightarrow> 'f option) \<Rightarrow> ('f \<Rightarrow> bool) \<Rightarrow> variant list \<Rightarrow> error + variant list" where
  "DominanceFiltering py_float ge Result =
     and_then
       (collect (Compound (map AnnoFit_GeneName Result)) (map AnnoFit_GeneName Result))
       (\<lambda>Comp.
          let Result = map (\<lambda>(r, c). r\<lparr>Annofit_Compound := c\<rparr>) (zip Result Comp)
          in and_then
               (collect (\<lambda>r. Compound_filter (Annofit_Compound r)) Result)
               (\<lambda>Compound_flags.
                  Inr (map fst
                        (filter
                           (\<lambda>(r, compound). compound
                              \<or> FilterpLi py_float ge (pLi r)
                              \<or> FilterOmimDominance (Disease_description r)
                              \<or> VCF_GT r = ''HOMO''
                              \<or> FilterNoInfo r)
                           (zip Result Compound_flags)))))"

section \<open>Bytes: UTF-8 and base 16\<close>

text \<open>A Python \<open>bytes\<close> value is a list of bytes; a \<open>char\<close> is one byte here.\<close>

type_synonym bytes = "char list"

text \<open>
  \<open>s.encode('utf-8')\<close>: a code point below U+0080 is one byte, one from U+0080 to
  U+00FF is two.
\<close>

fun utf8_encode_char :: "char \<Rightarrow> bytes" where
  "utf8_encode_char c =
     (let n = (of_char c :: nat)
      in if n < 128 then [c] else [char_of (192 + n div 64), char_of (128 + n mod 64)])"

definition utf8_encode :: "string \<Rightarrow> bytes" where
  "utf8_encode s = concat (map utf8_encode_char s)"

text \<open>
  \<open>b.decode('utf-8')\<close>, \<open>None\<close> for \<open>UnicodeDecodeError\<close>. A lead byte from
  \<open>0xC2\<close> on needs a continuation byte \<open>0x80..0xBF\<close>. The lead bytes above \<open>0xC3\<close>
  give code points above U+00FF, which this model of text does not have: the result is
  \<open>None\<close> for them as well.
\<close>

fun utf8_decode :: "bytes \<Rightarrow> string option" where
  "utf8_decode [] = Some []"
| "utf8_decode [b] = (if (of_char b :: nat) < 128 then Some [b] else None)"
| "utf8_decode (b # c # bs) =
     (let n = (of_char b :: nat); m = (of_char c :: nat)
      in if n < 128 then map_option ((#) b) (utf8_decode (c # bs))
         else if (n = 194 \<or> n = 195) \<and> 128 \<le> m \<and> m < 192
         then map_option ((#) (char_of ((n - 192) * 64 + (m - 128)))) (utf8_decode bs)
         else None)"

text \<open>\<open>base64.b16encode\<close>: two upper-case hexadecimal digits for each byte.\<close>

definition hex_digit :: "nat \<Rightarrow> char" where
  "hex_digit d = ''0123456789ABCDEF'' ! d"

definition b16encode :: "bytes \<Rightarrow> bytes" where
  "b16encode bs =
     concat (map (\<lambda>b. [hex_digit ((of_char b :: nat) div 16), hex_digit ((of_char b :: nat) mod 16)]) bs)"

text \<open>
  \<open>base64.b16decode\<close> (with \<open>casefold=False\<close>): \<open>None\<close> is \<open>binascii.Error\<close>, for a
  byte that is not one of \<open>0-9A-F\<close> and for an odd length.
\<close>

definition hex_val :: "char \<Rightarrow> nat option" where
  "hex_val c =
     (let n = (of_char c :: nat)
      in if 48 \<le> n \<and> n \<le> 57 then Some (n - 48)
         else if 65 \<le> n \<and> n \<le> 70 then Some (n - 55)
         else None)"

fun b16decode :: "bytes \<Rightarrow> bytes option" where
  "b16decode [] = Some []"
| "b16decode [h] = None"
| "b16decode (h # l # bs) =
     (case (hex_val h, hex_val l) of
        (Some a, Some b) \<Rightarrow> map_option ((#) (char_of (16 * a + b))) (b16decode bs)
      | _ \<Rightarrow> None)"

section \<open>Tsv2Gff3\<close>

text \<open>
  The JSON codec of Python's library is not part of the repository. \<open>json.dumps\<close> and
  \<open>json.loads\<close> are parameters of the model: \<open>json_dumps\<close> gives the text of a
  dictionary, \<open>json_loads\<close> gives \<open>None\<close> where \<open>json.loads\<close> raises.

  The attribute of one database row:
  \<^verbatim>\<open>
  lambda x: "ID=" + base64.b16encode(json.dumps(x.to_dict()).encode('utf-8')).decode('utf-8')
  \<close>
\<close>

definition encode_attributes :: "('m \<Rightarrow> string) \<Rightarrow> 'm \<Rightarrow> error + string" where
  "encode_attributes json_dumps x =
     (case utf8_decode (b16encode (utf8_encode (json_dumps x))) of
        None \<Rightarrow> Inl UnicodeDecodeError
      | Some hex \<Rightarrow> Inr (''ID='' @ hex))"

text \<open>
  A row of the database table as the function uses it: the values of its three anchor
  columns (whatever their names \<open>ChromCol\<close>, \<open>StartCol\<close>, \<open>EndCol\<close> are) and the values
  of its other columns in column order. Coordinates are integers. The table is the list of
  the names of those other columns and its rows.
\<close>

record 'v db_row =
  ChromCol :: string
  StartCol :: int
  EndCol :: int
  AttributeVals :: "'v list"

record 'v db_table =
  AttributeCols :: "string list"
  Rows :: "'v db_row list"

text \<open>\<open>x.to_dict()\<close> of the attribute columns of a row.\<close>

definition to_dict :: "string list \<Rightarrow> 'v db_row \<Rightarrow> (string \<times> 'v) list" where
  "to_dict cols r = zip cols (AttributeVals r)"

text \<open>One record of the output, in the order of \<open>DataOrder\<close>.\<close>

record gff3_record =
  seqid :: string
  sample :: string
  feature_type :: string
  gff_start :: int
  gff_end :: int
  score :: string
  strand :: string
  phase :: string
  attributes :: string

text \<open>
  \<^verbatim>\<open>
  Chroms = {value: index for index, value in enumerate(Faidx[0].to_list())}
  \<close>
\<close>

definition Chroms_of :: "string list \<Rightarrow> (string \<rightharpoonup> nat)" where
  "Chroms_of names = fold (\<lambda>(index, v) m. m(v \<mapsto> index)) (enumerate 0 names) Map.empty"

text \<open>
  \<open>Tsv2Gff3\<close>: the reference index is the list of the contig names and lengths of the
  \<open>.fai\<close> file. The result is what is written, the \<open>##sequence-region\<close> lines and the
  records, and the list of expected columns that is returned.
  \<^verbatim>\<open>
  Data = Data[Data[ChromCol].parallel_apply(lambda x: x in Chroms.keys())]
  Data["Rank"] = Data[ChromCol].map(Chroms)
  Data.sort_values(["Rank", StartCol], inplace=True)
  if Data.shape[0] == 0: ... raise RuntimeError(ErrorMessage)
  Attributes = Data[AttributeCols].parallel_apply(lambda x: "ID=" + ..., axis=1)
  Data.drop(columns=AttributeCols, inplace=True)
  Data[StartCol] = Data[StartCol].parallel_apply(lambda x: 1 if x == 0 else x)
  Data = Data.assign(sample=dbName, type="region", attributes=Attributes,
                     score=".", strand=".", phase=".")[DataOrder]
  ...
  return [f"{str(dbName)}.{str(item)}" for item in AttributeCols] if AttributeCols else [ str(dbName) ]
  \<close>
  The rows are paired with their rank; the sort by rank, then start, is the stable
  \<open>sort_key\<close> on these pairs in lexicographic order.
\<close>

record gff3_file =
  sequence_regions :: "(string \<times> nat) list"
  records :: "gff3_record list"

definition Tsv2Gff3 ::
  "((string \<times> 'v) list \<Rightarrow> string) \<Rightarrow> string \<Rightarrow> 'v db_table \<Rightarrow> (string \<times> nat) list
     \<Rightarrow> error + (gff3_file \<times> string list)" where
  "Tsv2Gff3 json_dumps dbName InputTSV Faidx =
     (let Chroms = Chroms_of (map fst Faidx);
          Data = List.map_filter
                   (\<lambda>r. map_option (\<lambda>Rank. (Rank, r)) (Chroms (ChromCol r))) (Rows InputTSV);
          Data = sort_key (\<lambda>(Rank, r). (Rank, StartCol r)) Data
      in if Data = [] then Inl RuntimeError
         else and_then
                (collect (\<lambda>(Rank, r). encode_attributes json_dumps (to_dict (AttributeCols InputTSV) r))
                   Data)
                (\<lambda>Attributes.
                   Inr (\<lparr>sequence_regions = Faidx,
                         records =
                           map (\<lambda>((Rank, r), a).
                                  \<lparr>seqid = ChromCol r, sample = dbName, feature_type = ''region'',
                                   gff_start = (if StartCol r = 0 then 1 else StartCol r),
                                   gff_end = EndCol r, score = ''.'', strand = ''.'', phase = ''.'',
                                   attributes = a\<rparr>)
                             (zip Data Attributes)\<rparr>,
                        if AttributeCols InputTSV \<noteq> []
                        then map (\<lambda>item. dbName @ ''.'' @ item) (AttributeCols InputTSV)
                        else [dbName])))"

text \<open>
  A serialiser for the examples below: the text \<open>json.dumps\<close> gives for a dictionary
  whose keys and values are strings of printable ASCII without quotes and backslashes.
\<close>

definition dumps_plain :: "(string \<times> string) list \<Rightarrow> string" where
  "dumps_plain d =
     ''{'' @ str_join '', '' (map (\<lambda>(k, v). [CHR 0x22] @ k @ [CHR 0x22] @ '': '' @ [CHR 0x22] @ v @ [CHR 0x22]) d)
     @ ''}''"

section \<open>CureBase: decoding the overlap column\<close>

text \<open>
  A cell of an overlap column after decoding: the sentinel, or the list of the
  dictionaries of the overlapping intervals.
  \<^verbatim>\<open>
  lambda x: '.' if x == '.' else [json.loads(base64.b16decode(item.encode('utf-8')).decode('utf-8'))
                                   for item in x.split("=")[1].split(",")]
  \<close>
\<close>

datatype 'm cell = Dot | Overlaps "'m list"

definition decode_item :: "(string \<Rightarrow> 'm option) \<Rightarrow> string \<Rightarrow> error + 'm" where
  "decode_item json_loads item =
     (case b16decode (utf8_encode item) of
        None \<Rightarrow> Inl Binascii_Error
      | Some bs \<Rightarrow>
          (case utf8_decode bs of
             None \<Rightarrow> Inl UnicodeDecodeError
           | Some text \<Rightarrow>
               (case json_loads text of
                  None \<Rightarrow> Inl JSONDecodeError
                | Some m \<Rightarrow> Inr m)))"

definition decode_cell :: "(string \<Rightarrow> 'm option) \<Rightarrow> string \<Rightarrow> error + 'm cell" where
  "decode_cell json_loads x =
     (if x = ''.'' then Inr Dot
      else (case str_split CHR ''='' x of
              tag # payload # rest \<Rightarrow>
                and_then (collect (decode_item json_loads) (str_split CHR '','' payload))
                  (\<lambda>LD. Inr (Overlaps LD))
            | _ \<Rightarrow> Inl IndexError))"

section \<open>CureBase: aggregating the overlaps\<close>

text \<open>
  The values of a decoded dictionary are integers or text here; floating-point values are
  not modelled. \<open>str_jval\<close> is \<open>str(item)\<close>.
\<close>

datatype jval = JInt int | JStr string

type_synonym dict = "(string \<times> jval) list"

definition str_jval :: "jval \<Rightarrow> string" where
  "str_jval v = (case v of JInt i \<Rightarrow> str_int i | JStr s \<Rightarrow> s)"

definition int_of_jval :: "jval \<Rightarrow> int option" where
  "int_of_jval v = (case v of JInt i \<Rightarrow> Some i | JStr s \<Rightarrow> None)"

definition text_of_jval :: "jval \<Rightarrow> string option" where
  "text_of_jval v = (case v of JInt i \<Rightarrow> None | JStr s \<Rightarrow> Some s)"

text \<open>
  \<open>sorted(list(set(x)))\<close>: the distinct values in increasing order, integers by value
  and text by code points; comparing an integer with text is a \<open>TypeError\<close>.
\<close>

definition sorted_set :: "jval list \<Rightarrow> error + jval list" where
  "sorted_set x =
     (case those (map int_of_jval x) of
        Some ints \<Rightarrow> Inr (map JInt (sort (remdups ints)))
      | None \<Rightarrow>
          (case those (map text_of_jval x) of
             Some texts \<Rightarrow> Inr (map JStr (sort (remdups texts)))
           | None \<Rightarrow> Inl TypeError))"

text \<open>
  A cell of an information column: missing (\<open>NaN\<close>), or the list of values collected for
  the variant. Flattening, applied to every such cell:
  \<^verbatim>\<open>
  lambda x: '.' if x != x else '; '.join([str(item) for item in sorted(list(set(x)))])
  \<close>
\<close>

datatype "value" = NaN | Values "jval list"

definition flatten :: "value \<Rightarrow> error + string" where
  "flatten x =
     (case x of
        NaN \<Rightarrow> Inr ''.''
      | Values xs \<Rightarrow> and_then (sorted_set xs) (\<lambda>s. Inr (str_join ''; '' (map str_jval s))))"

text \<open>
  The series made from the overlap list of one variant for the database \<open>Name\<close>:
  \<^verbatim>\<open>
  lambda LD: pandas.Series({str(NewColumns[Col]): ["yes"]} if not LD[0] else
      {f"{str(NewColumns[Col])}.{str(k)}": [dic[k] for dic in LD] for k in LD[0]})
  \<close>
\<close>

definition overlap_series :: "string \<Rightarrow> dict list \<Rightarrow> error + (string \<times> jval list) list" where
  "overlap_series Name LD =
     (case LD of
        [] \<Rightarrow> Inl IndexError
      | d0 # _ \<Rightarrow>
          if d0 = [] then Inr [(Name, [JStr ''yes''])]
          else collect
                 (\<lambda>k. and_then
                    (collect (\<lambda>dic. case map_of dic k of None \<Rightarrow> Inl KeyError | Some v \<Rightarrow> Inr v) LD)
                    (\<lambda>vs. Inr (Name @ ''.'' @ k, vs)))
                 (map fst d0))"

text \<open>
  The information columns of the table while it is built: their names, and for each
  variant the cell under each name.
\<close>

record frame =
  columns :: "string list"
  cells :: "(string \<rightharpoonup> value) list"

text \<open>
  One round of the loop over the overlap columns, for the database \<open>Name\<close> and its
  column \<open>Col\<close> of decoded cells (one for each variant):
  \<^verbatim>\<open>
  NewCols = Data[Col][Data[Col] != '.']
  if NewCols.size > 0:
      NewCols = NewCols.parallel_apply(lambda LD: pandas.Series(...))
      Data = pandas.concat([Data, NewCols], axis=1)
  else: logging.warning(...)
  \<close>
  The new columns are the names of all the series; a variant without a series, or whose
  series lacks a name, has \<open>NaN\<close> there. A new column with the name of a column that is
  already there replaces it in this model (pandas would keep both under one name); the
  theorems below are about databases whose columns have different names.
\<close>

definition add_database :: "string \<Rightarrow> dict cell list \<Rightarrow> frame \<Rightarrow> error + frame" where
  "add_database Name Col Data =
     (if list_all (\<lambda>x. x = Dot) Col then Inr Data
      else and_then
             (collect (\<lambda>x. case x of
                              Dot \<Rightarrow> Inr None
                            | Overlaps LD \<Rightarrow> and_then (overlap_series Name LD) (\<lambda>s. Inr (Some s)))
                Col)
             (\<lambda>NewCols.
                let new = remdups (concat (map (\<lambda>s. case s of None \<Rightarrow> [] | Some al \<Rightarrow> map fst al) NewCols))
                in Inr \<lparr>columns = columns Data @ new,
                        cells =
                          map (\<lambda>(r, s). \<lambda>c.
                                 if c \<in> set new
                                 then Some (case s of
                                              None \<Rightarrow> NaN
                                            | Some al \<Rightarrow>
                                                (case map_of al c of None \<Rightarrow> NaN | Some vs \<Rightarrow> Values vs))
                                 else r c)
                            (zip (cells Data) NewCols)\<rparr>))"

fun fold_err :: "('a \<Rightarrow> 's \<Rightarrow> 'e + 's) \<Rightarrow> 'a list \<Rightarrow> 's \<Rightarrow> 'e + 's" where
  "fold_err f [] s = Inr s"
| "fold_err f (x # xs) s = and_then (f x s) (fold_err f xs)"

text \<open>
  The decoding and merging part of \<open>CureBase\<close>. A variant of the annotated table is its
  key (the columns \<open>SNPdata\<close>) and the text of its overlap columns \<open>gff3\<close>, \<open>gff32\<close>, ...,
  one for each database of \<open>Names\<close>; a variant without one of these columns is the
  \<open>KeyError\<close> of the selection. The result has, for each variant, its key and the text of
  each expected column.
  \<^verbatim>\<open>
  Data = Data[SNPdata + list(NewColumns.keys())]
  Data[list(NewColumns.keys())] = Data[list(NewColumns.keys())].parallel_applymap(lambda x: ...)
  for Col in list(NewColumns.keys()): ...
  Data = Data.drop(columns=list(NewColumns.keys()))
  MissingCols = [item for item in ExpectedCols if item not in Data.columns.to_list()]
  Data[MissingCols] = float("nan")
  InformationCols = [item for item in Data.columns.to_list() if item not in SNPdata]
  Data[InformationCols] = Data[InformationCols].parallel_applymap(lambda x: ...)
  Data = Data[SNPdata + ExpectedCols]
  \<close>
\<close>

definition CureBase_merge ::
  "(string \<Rightarrow> dict option) \<Rightarrow> string list \<Rightarrow> string list \<Rightarrow> ('k \<times> string list) list
     \<Rightarrow> error + ('k \<times> (string \<times> string) list) list" where
  "CureBase_merge json_loads Names ExpectedCols Table =
     (if list_ex (\<lambda>(key, raw). length raw \<noteq> length Names) Table then Inl KeyError
      else and_then
        (collect (\<lambda>(key, raw). collect (decode_cell json_loads) raw) Table)
        (\<lambda>Decoded.
           and_then
             (fold_err (\<lambda>(index, Name) Data. add_database Name (map (\<lambda>row. row ! index) Decoded) Data)
                (enumerate 0 Names)
                \<lparr>columns = [], cells = map (\<lambda>row. Map.empty) Table\<rparr>)
             (\<lambda>Data.
                let MissingCols = filter (\<lambda>item. item \<notin> set (columns Data)) ExpectedCols;
                    Data = \<lparr>columns = columns Data @ MissingCols,
                            cells = map (\<lambda>r. \<lambda>c. if c \<in> set MissingCols then Some NaN else r c)
                                      (cells Data)\<rparr>
                in and_then
                     (collect
                        (\<lambda>r. collect
                                (\<lambda>c. case r c of
                                        None \<Rightarrow> Inl KeyError
                                      | Some x \<Rightarrow> and_then (flatten x) (\<lambda>text. Inr (c, text)))
                                (columns Data))
                        (cells Data))
                     (\<lambda>Flat.
                        and_then
                          (collect
                             (\<lambda>((key, raw), al).
                                and_then
                                  (collect (\<lambda>c. case map_of al c of
                                                   None \<Rightarrow> Inl KeyError
                                                 | Some text \<Rightarrow> Inr (c, text))
                                     ExpectedCols)
                                  (\<lambda>row. Inr (key, row)))
                             (zip Table Flat))
                          Inr))))"

text \<open>A parser for the examples below: it knows the JSON text of three dictionaries.\<close>

definition loads_known :: "string \<Rightarrow> dict option" where
  "loads_known text =
     map_of
       [(''{'' @ [CHR 0x22] @ ''X'' @ [CHR 0x22] @ '': 1}'', [(''X'', JInt 1)]),
        (''{'' @ [CHR 0x22] @ ''X'' @ [CHR 0x22] @ '': 2}'', [(''X'', JInt 2)]),
        (''{}'', [])]
       text"

text \<open>
  The names of the columns that the series of the database \<open>Name\<close> can have: the name
  itself, or the name, a dot and a sub-field name.
\<close>

definition column_of :: "string \<Rightarrow> string \<Rightarrow> bool" where
  "column_of Name c = (c = Name \<or> take (length Name + 1) c = Name @ ''.'')"

section \<open>Properties\<close>

subsection \<open>Genotype normalisation\<close>

lemma FormatGenotype_two:
  assumes "map FormatInt (str_split CHR ''/'' s) = [Some a, Some b]"
  shows "FormatGenotype s = (if a = b \<and> a \<noteq> 0 then ''HOMO'' else s)"
  using assms by (simp add: FormatGenotype_def Let_def)

lemma FormatGenotype_other:
  assumes "\<not> (\<exists>a b. map FormatInt (str_split CHR ''/'' s) = [Some a, Some b])"
  shows "FormatGenotype s = ''.''"
proof -
  let ?L = "map FormatInt (str_split CHR ''/'' s)"
  have "length ?L \<noteq> 2 \<or> list_ex (\<lambda>item. item = None) ?L"
  proof (rule ccontr)
    assume neg: "\<not> ?thesis"
    from neg have len: "length ?L = 2"
      by blast
    from neg have nn: "None \<notin> set ?L"
      unfolding list_ex_iff by blast
    from len obtain x y where xy: "?L = [x, y]"
      by (auto simp: length_Suc_conv numeral_2_eq_2)
    from nn obtain a b where "x = Some a" "y = Some b"
      unfolding xy by (cases x; cases y) simp_all
    with xy assms show False by simp
  qed
  then show ?thesis
    by (simp add: FormatGenotype_def Let_def)
qed

text \<open>
  Claim C8. FormatGenotype returns the sentinel \<open>.\<close> when the string does not split on
  \<open>/\<close> into exactly two parts that both parse as integers; it returns \<open>HOMO\<close> when the
  two allele indices are equal and not zero, and the input string unchanged otherwise.
  In particular \<open>1/1\<close> gives \<open>HOMO\<close>, \<open>0/1\<close> stays \<open>0/1\<close>, and \<open>a/b\<close> gives \<open>.\<close>.
\<close>

theorem FormatGenotype_spec:
  "(\<not> (\<exists>a b. map FormatInt (str_split CHR ''/'' s) = [Some a, Some b])
      \<longrightarrow> FormatGenotype s = ''.'')
   \<and> (\<forall>a b. map FormatInt (str_split CHR ''/'' s) = [Some a, Some b]
      \<longrightarrow> FormatGenotype s = (if a = b \<and> a \<noteq> 0 then ''HOMO'' else s))
   \<and> FormatGenotype ''1/1'' = ''HOMO''
   \<and> FormatGenotype ''0/1'' = ''0/1''
   \<and> FormatGenotype ''a/b'' = ''.''"
proof -
  have e1: "FormatGenotype ''1/1'' = ''HOMO''"
    by (simp add: FormatGenotype_def FormatInt_def py_int_def strip_def is_space_def
        int_digits_def is_digit_def digit_val_def)
  have e2: "FormatGenotype ''0/1'' = ''0/1''"
    by (simp add: FormatGenotype_def FormatInt_def py_int_def strip_def is_space_def
        int_digits_def is_digit_def digit_val_def)
  have e3: "FormatGenotype ''a/b'' = ''.''"
    by (simp add: FormatGenotype_def FormatInt_def py_int_def strip_def is_space_def
        int_digits_def is_digit_def digit_val_def)
  have a: "\<not> (\<exists>a b. map FormatInt (str_split CHR ''/'' s) = [Some a, Some b])
      \<longrightarrow> FormatGenotype s = ''.''"
    using FormatGenotype_other by blast
  have b: "\<forall>a b. map FormatInt (str_split CHR ''/'' s) = [Some a, Some b]
      \<longrightarrow> FormatGenotype s = (if a = b \<and> a \<noteq> 0 then ''HOMO'' else s)"
    by (intro allI impI) (rule FormatGenotype_two)
  from a b e1 e2 e3 show ?thesis
    by (intro conjI)
qed

theorem FormatGenotype_spec_witness:
  "map FormatInt (str_split CHR ''/'' ''2/2'') = [Some 2, Some 2]
   \<and> FormatGenotype ''2/2'' = ''HOMO''
   \<and> \<not> (\<exists>a b. map FormatInt (str_split CHR ''/'' ''1|1'') = [Some a, Some b])
   \<and> FormatGenotype ''1|1'' = ''.''"
proof -
  have p: "map FormatInt (str_split CHR ''/'' ''2/2'') = [Some 2, Some 2]"
    by (simp add: FormatInt_def py_int_def strip_def is_space_def
        int_digits_def is_digit_def digit_val_def)
  have q: "\<not> (\<exists>a b. map FormatInt (str_split CHR ''/'' ''1|1'') = [Some a, Some b])"
    by simp
  from p q show ?thesis
    using FormatGenotype_spec [of "''2/2''"] FormatGenotype_spec [of "''1|1''"] by simp
qed

subsection \<open>VCF per-sample metadata\<close>

lemma map_of_dict_set: "map_of (dict_set al k v) = (map_of al)(k \<mapsto> v)"
  by (induction al k v rule: dict_set.induct) auto

lemma dict_set_fresh: "k \<notin> fst ` set al \<Longrightarrow> dict_set al k v = al @ [(k, v)]"
  by (induction al k v rule: dict_set.induct) auto

lemma keys_dict_set: "fst ` set (dict_set al k v) = insert k (fst ` set al)"
  by (induction al k v rule: dict_set.induct) auto

lemma distinct_dict_set: "distinct (map fst al) \<Longrightarrow> distinct (map fst (dict_set al k v))"
  by (induction al k v rule: dict_set.induct) (auto simp: keys_dict_set)

lemma fold_dict_set_map_of:
  assumes "n \<le> length H" "n \<le> length D"
  shows "map_of (fold (\<lambda>Num Result. dict_set Result (H ! Num) (f (D ! Num))) [0..<n] R)
         = map_of R ++ map_of (rev (zip (take n H) (map f (take n D))))"
  using assms
proof (induction n)
  case 0
  then show ?case by simp
next
  case (Suc n)
  then have n: "n < length H" "n < length D" by simp_all
  have "take (Suc n) H = take n H @ [H ! n]" "take (Suc n) D = take n D @ [D ! n]"
    using n by (simp_all add: take_Suc_conv_app_nth)
  then show ?case using Suc n
    by (auto simp add: map_of_dict_set zip_append1 min_def map_add_def fun_eq_iff)
qed

lemma fold_dict_set_distinct:
  assumes "n \<le> length H" "n \<le> length D" "distinct H" "set H \<inter> fst ` set R = {}"
  shows "fold (\<lambda>Num Result. dict_set Result (H ! Num) (f (D ! Num))) [0..<n] R
         = R @ zip (take n H) (map f (take n D))"
  using assms
proof (induction n)
  case 0
  then show ?case by simp
next
  case (Suc n)
  then have n: "n < length H" "n < length D" by simp_all
  have t: "take (Suc n) H = take n H @ [H ! n]" "take (Suc n) D = take n D @ [D ! n]"
    using n by (simp_all add: take_Suc_conv_app_nth)
  have "H ! n \<notin> set (take n H)"
    using Suc.prems(3) n(1) by (metis distinct_take id_take_nth_drop not_distinct_conv_prefix)
  moreover have "H ! n \<notin> fst ` set R" using Suc.prems(4) n(1) by (meson disjoint_iff nth_mem)
  ultimately have fresh: "H ! n \<notin> fst ` set (R @ zip (take n H) (map f (take n D)))"
    by (auto dest: set_zip_leftD)
  show ?case using Suc n t fresh
    by (simp add: dict_set_fresh)
qed

lemma Name_not_header: "''Name'' \<notin> set (map (\<lambda>item. ''VCF.'' @ item) xs)"
  by auto

text \<open>
  Claim C9. FormatVcfMetadata splits the format string and the sample string on \<open>:\<close>.
  When the two lists have the same length the result holds the row label under \<open>Name\<close>
  and every format name (prefixed \<open>VCF.\<close>) with the sample value at the same position
  (the last one when a format name is repeated); with distinct names it is exactly the zip.
  When the lengths differ the result is the identity field alone and no error is raised.
\<close>

theorem FormatVcfMetadata_zip:
  "(let H = map (\<lambda>item. ''VCF.'' @ item) (str_split CHR '':'' (VCF_FORMAT Block));
        D = str_split CHR '':'' (VCF_SAMPLE Block);
        Identity = (''Name'', Label (name Block))
    in (length H \<noteq> length D \<longrightarrow> FormatVcfMetadata Block = [Identity])
     \<and> (length H = length D \<longrightarrow>
           map_of (FormatVcfMetadata Block)
             = (map_of (rev (zip H (map Text D))))(''Name'' \<mapsto> Label (name Block)))
     \<and> (length H = length D \<and> distinct H \<longrightarrow>
           FormatVcfMetadata Block = Identity # zip H (map Text D)))"
proof -
  define H where "H = map (\<lambda>item. ''VCF.'' @ item) (str_split CHR '':'' (VCF_FORMAT Block))"
  define D where "D = str_split CHR '':'' (VCF_SAMPLE Block)"
  define R where "R = [(''Name'', Label (name Block))]"
  have nm: "''Name'' \<notin> set H"
    unfolding H_def by (rule Name_not_header)
  have neq: "FormatVcfMetadata Block = R" if "length H \<noteq> length D"
    using that by (simp add: FormatVcfMetadata_def H_def D_def R_def Let_def)
  have unf: "FormatVcfMetadata Block
      = fold (\<lambda>Num Result. dict_set Result (H ! Num) (Text (D ! Num))) [0..<length H] R"
    if "length H = length D"
    using that by (simp add: FormatVcfMetadata_def H_def D_def R_def Let_def)
  have m: "map_of (FormatVcfMetadata Block)
      = (map_of (rev (zip H (map Text D))))(''Name'' \<mapsto> Label (name Block))"
    if eq: "length H = length D"
  proof -
    have "map_of (FormatVcfMetadata Block) = map_of R ++ map_of (rev (zip H (map Text D)))"
      using fold_dict_set_map_of [where n = "length H" and H = H and D = D and f = Text and R = R] eq by (simp add: unf)
    also have "\<dots> = (map_of (rev (zip H (map Text D))))(''Name'' \<mapsto> Label (name Block))"
    proof (rule ext)
      fix k
      have none: "map_of (rev (zip H (map Text D))) ''Name'' = None"
        using nm by (auto simp: map_of_eq_None_iff dest: set_zip_leftD)
      show "(map_of R ++ map_of (rev (zip H (map Text D)))) k
          = ((map_of (rev (zip H (map Text D))))(''Name'' \<mapsto> Label (name Block))) k"
        by (cases "k = ''Name''") (simp_all add: R_def map_add_def none split: option.split)
    qed
    finally show ?thesis .
  qed
  have d: "FormatVcfMetadata Block = (''Name'', Label (name Block)) # zip H (map Text D)"
    if eq: "length H = length D" and dist: "distinct H"
  proof -
    have "set H \<inter> fst ` set R = {}"
      using nm by (simp add: R_def)
    then show ?thesis
      using fold_dict_set_distinct [where n = "length H" and H = H and D = D and f = Text and R = R] eq dist
      by (simp add: unf R_def)
  qed
  from neq m d show ?thesis
    unfolding Let_def H_def [symmetric] D_def [symmetric] R_def by blast
qed

theorem FormatVcfMetadata_zip_witness:
  "FormatVcfMetadata \<lparr>VCF_FORMAT = ''GT:AD'', VCF_SAMPLE = ''0/1:7,5'', name = (4::nat)\<rparr>
     = [(''Name'', Label 4), (''VCF.GT'', Text ''0/1''), (''VCF.AD'', Text ''7,5'')]
   \<and> FormatVcfMetadata \<lparr>VCF_FORMAT = ''GT:AD:DP'', VCF_SAMPLE = ''0/1:7,5'', name = (4::nat)\<rparr>
     = [(''Name'', Label 4)]"
  using FormatVcfMetadata_zip [of "\<lparr>VCF_FORMAT = ''GT:AD'', VCF_SAMPLE = ''0/1:7,5'', name = (4::nat)\<rparr>"]
    FormatVcfMetadata_zip [of "\<lparr>VCF_FORMAT = ''GT:AD:DP'', VCF_SAMPLE = ''0/1:7,5'', name = (4::nat)\<rparr>"]
  by (simp add: Let_def)

subsection \<open>Lists that may raise, splitting and joining, integers as text\<close>

lemma collect_Inr: "(\<And>x. x \<in> set xs \<Longrightarrow> f x = Inr (g x)) \<Longrightarrow> collect f xs = Inr (map g xs)"
  by (induction xs) simp_all

lemma str_split_not_Nil [simp]: "str_split sep s \<noteq> []"
  by (induction s) (auto split: list.splits)

lemma str_split_no_sep: "sep \<notin> set w \<Longrightarrow> str_split sep w = [w]"
  by (induction w) auto

lemma str_split_append_sep:
  "sep \<notin> set w \<Longrightarrow> str_split sep (w @ sep # s) = w # str_split sep s"
  by (induction w) (auto split: list.splits)

lemma str_split_join:
  "ws \<noteq> [] \<Longrightarrow> (\<And>w. w \<in> set ws \<Longrightarrow> sep \<notin> set w) \<Longrightarrow> str_split sep (str_join [sep] ws) = ws"
proof (induction "[sep]" ws rule: str_join.induct)
  case 1
  then show ?case by simp
next
  case (2 w)
  then show ?case by (simp add: str_split_no_sep)
next
  case (3 w v ws)
  then show ?case by (simp add: str_split_append_sep)
qed

lemma digit_cases:
  "d < (10::nat) \<Longrightarrow>
   d = 0 \<or> d = 1 \<or> d = 2 \<or> d = 3 \<or> d = 4 \<or> d = 5 \<or> d = 6 \<or> d = 7 \<or> d = 8 \<or> d = 9"
  by arith

lemma digit_char [simp]:
  assumes "d < 10"
  shows "is_digit (digit_char d)" and "digit_val (digit_char d) = d"
  using digit_cases [OF assms]
  by (auto simp add: is_digit_def digit_val_def digit_char_def)

lemma str_nat_digits: "c \<in> set (str_nat n) \<Longrightarrow> is_digit c"
proof (induction n arbitrary: c rule: str_nat.induct)
  case (1 n)
  show ?case
  proof (cases "n < 10")
    case True
    with "1.prems" show ?thesis by (simp add: str_nat.simps [of n])
  next
    case False
    with "1.prems" "1.IH" show ?thesis
      by (auto simp add: str_nat.simps [of n])
  qed
qed

lemma str_nat_not_Nil: "str_nat n \<noteq> []"
  by (subst str_nat.simps) simp

lemma int_body_digits:
  "(\<And>c. c \<in> set ds \<Longrightarrow> is_digit c) \<Longrightarrow>
   int_body ds acc = Some (foldl (\<lambda>a c. 10 * a + digit_val c) acc ds)"
  by (induction ds acc rule: int_body.induct) simp_all

lemma int_digits_digits:
  assumes "s \<noteq> []" "\<And>c. c \<in> set s \<Longrightarrow> is_digit c"
  shows "int_digits s = Some (foldl (\<lambda>a c. 10 * a + digit_val c) 0 s)"
proof (cases s)
  case Nil
  with assms show ?thesis by simp
next
  case (Cons c cs)
  with assms show ?thesis
    by (simp add: int_digits_def int_body_digits)
qed

lemma foldl_str_nat: "foldl (\<lambda>a c. 10 * a + digit_val c) 0 (str_nat n) = n"
proof (induction n rule: str_nat.induct)
  case (1 n)
  show ?case
  proof (cases "n < 10")
    case True
    then show ?thesis by (simp add: str_nat.simps [of n])
  next
    case False
    with "1.IH" show ?thesis
      by (simp add: str_nat.simps [of n])
  qed
qed

lemma int_digits_str_nat: "int_digits (str_nat n) = Some n"
  using int_digits_digits [OF str_nat_not_Nil str_nat_digits] by (simp add: foldl_str_nat)

lemma is_digit_not_space: "is_digit c \<Longrightarrow> \<not> is_space c"
  by (auto simp: is_digit_def is_space_def)

lemma strip_id: "s \<noteq> [] \<Longrightarrow> \<not> is_space (hd s) \<Longrightarrow> \<not> is_space (last s) \<Longrightarrow> strip s = s"
proof -
  assume a: "s \<noteq> []" "\<not> is_space (hd s)" "\<not> is_space (last s)"
  then have "dropWhile is_space s = s"
    by (cases s) simp_all
  moreover have "dropWhile is_space (rev s) = rev s"
    using a by (cases "rev s") (simp_all add: hd_rev)
  ultimately show ?thesis by (simp add: strip_def)
qed

lemma hd_str_nat_digit: "is_digit (hd (str_nat n))"
  using str_nat_digits [of "hd (str_nat n)" n] by (simp add: str_nat_not_Nil)

lemma last_str_nat_digit: "is_digit (last (str_nat n))"
  using str_nat_digits [of "last (str_nat n)" n] by (simp add: str_nat_not_Nil)

lemma strip_str_nat: "strip (str_nat n) = str_nat n"
  by (rule strip_id)
    (simp_all add: str_nat_not_Nil is_digit_not_space hd_str_nat_digit last_str_nat_digit)

lemma py_int_str_nat: "py_int (str_nat n) = Some (int n)"
proof -
  obtain c cs where s: "str_nat n = c # cs"
    using str_nat_not_Nil by (cases "str_nat n") auto
  have "is_digit c" using hd_str_nat_digit [of n] s by simp
  then have c: "c \<noteq> CHR ''-''" "c \<noteq> CHR ''+''"
    by (auto simp: is_digit_def)
  have "strip (c # cs) = c # cs"
    using strip_str_nat [of n] s by simp
  with c show ?thesis
    using int_digits_str_nat [of n] by (simp add: py_int_def s)
qed

lemma py_int_str_int: "py_int (str_int i) = Some i"
proof (cases "i < 0")
  case False
  then show ?thesis by (simp add: str_int_def py_int_str_nat)
next
  case True
  have "\<not> is_space (last (str_nat (nat (- i))))"
    by (simp add: is_digit_not_space last_str_nat_digit)
  then have "strip (CHR ''-'' # str_nat (nat (- i))) = CHR ''-'' # str_nat (nat (- i))"
    by (intro strip_id) (simp_all add: is_space_def str_nat_not_Nil)
  with True show ?thesis
    by (simp add: str_int_def py_int_def int_digits_str_nat)
qed

lemma semicolon_not_in_str_nat: "CHR '';'' \<notin> set (str_nat n)"
  using str_nat_digits [of "CHR '';''" n] by (auto simp: is_digit_def)

subsection \<open>Dominance filtering\<close>

lemma value_counts_True_member:
  assumes "x \<in> set G" "gene \<in> set (str_split CHR '';'' x)"
  shows "value_counts_True (map (\<lambda>y. gene \<in> set (str_split CHR '';'' y)) G)
         = Inr (length (filter (\<lambda>y. gene \<in> set (str_split CHR '';'' y)) G))"
proof -
  have "x \<in> set (filter (\<lambda>y. gene \<in> set (str_split CHR '';'' y)) G)"
    using assms by simp
  then have "filter (\<lambda>y. gene \<in> set (str_split CHR '';'' y)) G \<noteq> []"
    by (metis empty_iff empty_set)
  then show ?thesis
    by (simp add: value_counts_True_def Let_def filter_map comp_def)
qed

lemma Compound_member:
  assumes "x \<in> set G"
  shows "Compound G x
         = Inr (str_join '';''
                 (map (\<lambda>gene. str_nat (length (filter (\<lambda>y. gene \<in> set (str_split CHR '';'' y)) G)))
                    (str_split CHR '';'' x)))"
proof -
  have "collect
          (\<lambda>gene. and_then
             (value_counts_True (map (\<lambda>y. gene \<in> set (str_split CHR '';'' y)) G))
             (\<lambda>n. Inr (str_int (int n))))
          (str_split CHR '';'' x)
        = Inr (map (\<lambda>gene. str_nat (length (filter (\<lambda>y. gene \<in> set (str_split CHR '';'' y)) G)))
                 (str_split CHR '';'' x))"
    by (rule collect_Inr) (simp add: value_counts_True_member [OF assms] str_int_def)
  then show ?thesis
    by (simp add: Compound_def)
qed

lemma Compound_filter_join:
  assumes "ns \<noteq> []"
  shows "Compound_filter (str_join '';'' (map str_nat ns)) = Inr (list_ex (\<lambda>n. 1 < n) ns)"
proof -
  have sp: "str_split CHR '';'' (str_join '';'' (map str_nat ns)) = map str_nat ns"
    using assms by (intro str_split_join) (auto simp: semicolon_not_in_str_nat)
  have "collect (\<lambda>item. case py_int item of None \<Rightarrow> Inl ValueError | Some i \<Rightarrow> Inr (1 < i))
          (map str_nat ns) = Inr (map (\<lambda>item. 1 < the (py_int item)) (map str_nat ns))"
    by (rule collect_Inr) (auto simp: py_int_str_nat)
  then show ?thesis
    by (simp add: Compound_filter_def sp comp_def py_int_str_nat list_ex_iff)
qed

lemma FilterNoInfo_constant:
  "findall_dominant_recessive (lower (str_list [''Disease_description''])) = []"
  by (simp add: str_list_def repr_str_def lower_def lower_char_def match_W_lit_W_def is_word_def)

lemma FilterNoInfo_True: "FilterNoInfo x"
  by (simp add: FilterNoInfo_def FilterNoInfo_constant)

text \<open>
  Claim C4. FilterNoInfo is true of every row: its second disjunct searches the constant
  text \<open>str(["Disease_description"])\<close>, in which neither marker occurs, not the row's
  disease description. So the dominance filtering keeps every row of its input (each
  with its compound column), whatever the compound counts, pLi, the dominance markers and
  the genotype are, and it raises nothing.
\<close>

theorem DominanceFiltering_keeps_all:
  "FilterNoInfo x
   \<and> findall_dominant_recessive (lower (str_list [''Disease_description''])) = []
   \<and> (\<exists>Comp. collect (Compound (map AnnoFit_GeneName Result)) (map AnnoFit_GeneName Result)
                = Inr Comp
            \<and> length Comp = length Result
            \<and> DominanceFiltering py_float ge Result
                = Inr (map (\<lambda>(r, c). r\<lparr>Annofit_Compound := c\<rparr>) (zip Result Comp)))"
proof -
  define G where "G = map AnnoFit_GeneName Result"
  define cnt where "cnt gene = length (filter (\<lambda>y. gene \<in> set (str_split CHR '';'' y)) G)" for gene
  define comp where "comp x = str_join '';'' (map str_nat (map cnt (str_split CHR '';'' x)))" for x
  define Comp where "Comp = map comp G"
  define R where "R = map (\<lambda>(r, c). r\<lparr>Annofit_Compound := c\<rparr>) (zip Result Comp)"
  have c1: "collect (Compound G) G = Inr Comp"
    unfolding Comp_def
    by (rule collect_Inr) (simp add: Compound_member comp_def cnt_def comp_def [abs_def] o_def)
  have len: "length Comp = length Result"
    by (simp add: Comp_def G_def)
  have lenR: "length R = length Result"
    by (simp add: R_def len)
  have c2: "collect (\<lambda>r. Compound_filter (Annofit_Compound r)) R
            = Inr (map (\<lambda>r. list_ex (\<lambda>n. 1 < n) (map cnt (str_split CHR '';'' (AnnoFit_GeneName r)))) R)"
  proof (rule collect_Inr)
    fix r assume "r \<in> set R"
    then obtain r0 c where rc: "(r0, c) \<in> set (zip Result Comp)" "r = r0\<lparr>Annofit_Compound := c\<rparr>"
      by (auto simp: R_def)
    then obtain i where i: "i < length Result" "r0 = Result ! i" "c = Comp ! i"
      by (auto simp: set_zip)
    then have "c = comp (AnnoFit_GeneName r0)"
      by (simp add: Comp_def G_def)
    moreover have "Compound_filter (comp g) = Inr (list_ex (\<lambda>n. 1 < n) (map cnt (str_split CHR '';'' g)))" for g
      unfolding comp_def by (rule Compound_filter_join) simp
    ultimately show "Compound_filter (Annofit_Compound r)
               = Inr (list_ex (\<lambda>n. 1 < n) (map cnt (str_split CHR '';'' (AnnoFit_GeneName r))))"
      using rc(2) by simp
  qed
  have keep: "map fst (filter (\<lambda>(r, compound). compound
                              \<or> FilterpLi py_float ge (pLi r)
                              \<or> FilterOmimDominance (Disease_description r)
                              \<or> VCF_GT r = ''HOMO''
                              \<or> FilterNoInfo r) (zip R flags)) = R"
    if "length flags = length R" for flags
    using that by (simp add: FilterNoInfo_True case_prod_unfold)
  have "DominanceFiltering py_float ge Result = Inr R"
    unfolding DominanceFiltering_def G_def [symmetric]
    by (simp add: c1 Let_def R_def [symmetric] c2 keep)
  with c1 len show ?thesis
    unfolding G_def R_def using FilterNoInfo_True FilterNoInfo_constant by blast
qed

theorem DominanceFiltering_keeps_all_witness:
  "DominanceFiltering (\<lambda>s. None :: real option) (\<lambda>v. 9 / 10 \<le> v)
     [\<lparr>pLi = ''.'', Disease_description = ''Ataxia, autosomal recessive'', VCF_GT = ''0/1'',
       AnnoFit_GeneName = ''ABC1'', Annofit_Compound = []\<rparr>,
      \<lparr>pLi = ''.'', Disease_description = ''.'', VCF_GT = ''1/2'',
       AnnoFit_GeneName = ''XYZ2;QRS3'', Annofit_Compound = []\<rparr>]
   = Inr
     [\<lparr>pLi = ''.'', Disease_description = ''Ataxia, autosomal recessive'', VCF_GT = ''0/1'',
       AnnoFit_GeneName = ''ABC1'', Annofit_Compound = ''1''\<rparr>,
      \<lparr>pLi = ''.'', Disease_description = ''.'', VCF_GT = ''1/2'',
       AnnoFit_GeneName = ''XYZ2;QRS3'', Annofit_Compound = ''1;1''\<rparr>]"
  using DominanceFiltering_keeps_all [where py_float = "\<lambda>s. None :: real option"
     and ge = "\<lambda>v. 9 / 10 \<le> v" and Result =
     "[\<lparr>pLi = ''.'', Disease_description = ''Ataxia, autosomal recessive'', VCF_GT = ''0/1'',
       AnnoFit_GeneName = ''ABC1'', Annofit_Compound = []\<rparr>,
      \<lparr>pLi = ''.'', Disease_description = ''.'', VCF_GT = ''1/2'',
       AnnoFit_GeneName = ''XYZ2;QRS3'', Annofit_Compound = []\<rparr>]"]
  by (auto simp: Compound_def value_counts_True_def str_int_def str_nat.simps digit_char_def)

text \<open>
  Claim C3 says that a row survives the dominance filtering only if its compound count
  exceeds 1, or pLi passes the threshold, or the disease description has a dominant
  marker, or the genotype is \<open>HOMO\<close>, or pLi and the disease description are both the
  sentinel. The row below meets none of the five (its pLi is below the threshold) and
  survives.
\<close>

theorem DominanceFiltering_recessive_survives:
  assumes "py_float ''0.1'' = Some v" and "\<not> ge v"
  shows "DominanceFiltering py_float ge
           [\<lparr>pLi = ''0.1'', Disease_description = ''Ataxia, autosomal recessive'',
             VCF_GT = ''0/1'', AnnoFit_GeneName = ''ABC1'', Annofit_Compound = []\<rparr>]
         = Inr [\<lparr>pLi = ''0.1'', Disease_description = ''Ataxia, autosomal recessive'',
                 VCF_GT = ''0/1'', AnnoFit_GeneName = ''ABC1'', Annofit_Compound = ''1''\<rparr>]
       \<and> Compound_filter ''1'' = Inr False
       \<and> \<not> FilterpLi py_float ge ''0.1''
       \<and> \<not> FilterOmimDominance ''Ataxia, autosomal recessive''
       \<and> ''0/1'' \<noteq> ''HOMO''
       \<and> \<not> (''0.1'' = ''.'' \<and> ''Ataxia, autosomal recessive'' = ''.'')"
proof -
  have a: "Compound_filter ''1'' = Inr False"
    by (simp add: Compound_filter_def py_int_def strip_def is_space_def int_digits_def
        is_digit_def digit_val_def)
  have b: "\<not> FilterpLi py_float ge ''0.1''"
    using assms by (simp add: FilterpLi_def FormatFloat_def)
  have c: "\<not> FilterOmimDominance ''Ataxia, autosomal recessive''"
    by (simp add: FilterOmimDominance_def lower_def lower_char_def match_W_lit_W_def is_word_def)
  have d: "Compound [''ABC1''] ''ABC1'' = Inr ''1''"
    by (simp add: Compound_def value_counts_True_def str_int_def str_nat.simps digit_char_def)
  have e: "DominanceFiltering py_float ge
           [\<lparr>pLi = ''0.1'', Disease_description = ''Ataxia, autosomal recessive'',
             VCF_GT = ''0/1'', AnnoFit_GeneName = ''ABC1'', Annofit_Compound = []\<rparr>]
         = Inr [\<lparr>pLi = ''0.1'', Disease_description = ''Ataxia, autosomal recessive'',
                 VCF_GT = ''0/1'', AnnoFit_GeneName = ''ABC1'', Annofit_Compound = ''1''\<rparr>]"
    by (simp add: DominanceFiltering_def d a FilterNoInfo_True)
  from a b c e show ?thesis by simp
qed

theorem DominanceFiltering_recessive_survives_witness:
  "DominanceFiltering (\<lambda>s. if s = ''0.1'' then Some (1 / 10 :: real) else None) (\<lambda>v. 9 / 10 \<le> v)
           [\<lparr>pLi = ''0.1'', Disease_description = ''Ataxia, autosomal recessive'',
             VCF_GT = ''0/1'', AnnoFit_GeneName = ''ABC1'', Annofit_Compound = []\<rparr>]
         = Inr [\<lparr>pLi = ''0.1'', Disease_description = ''Ataxia, autosomal recessive'',
                 VCF_GT = ''0/1'', AnnoFit_GeneName = ''ABC1'', Annofit_Compound = ''1''\<rparr>]
   \<and> \<not> FilterpLi (\<lambda>s. if s = ''0.1'' then Some (1 / 10 :: real) else None) (\<lambda>v. 9 / 10 \<le> v) ''0.1''"
  using DominanceFiltering_recessive_survives
    [of "\<lambda>s. if s = ''0.1'' then Some (1 / 10 :: real) else None" "1 / 10" "\<lambda>v. 9 / 10 \<le> v"]
  by simp

subsection \<open>Base 16 and UTF-8\<close>

lemma hex_cases:
  "d < (16::nat) \<Longrightarrow>
   d = 0 \<or> d = 1 \<or> d = 2 \<or> d = 3 \<or> d = 4 \<or> d = 5 \<or> d = 6 \<or> d = 7 \<or> d = 8 \<or> d = 9
   \<or> d = 10 \<or> d = 11 \<or> d = 12 \<or> d = 13 \<or> d = 14 \<or> d = 15"
  by arith


lemma byte_nibbles: "(of_char b :: nat) div 16 < 16" "(of_char b :: nat) mod 16 < 16"
proof -
  have "(of_char b :: nat) < 256" by simp
  then show "(of_char b :: nat) div 16 < 16" by arith
  show "(of_char b :: nat) mod 16 < 16" by simp
qed

lemma hex_digit_ascii: "d < 16 \<Longrightarrow> (of_char (hex_digit d) :: nat) < 128"
  using hex_cases [of d] by (auto simp: hex_digit_def)

lemma hex_digit_not_sep: "d < 16 \<Longrightarrow> hex_digit d \<noteq> CHR ''='' \<and> hex_digit d \<noteq> CHR '',''"
  using hex_cases [of d] by (auto simp: hex_digit_def)




lemma b16encode_chars:
  assumes "c \<in> set (b16encode bs)"
  shows "(of_char c :: nat) < 128 \<and> c \<noteq> CHR ''='' \<and> c \<noteq> CHR '',''"
proof -
  from assms obtain b where
    "c = hex_digit ((of_char b :: nat) div 16) \<or> c = hex_digit ((of_char b :: nat) mod 16)"
    by (auto simp: b16encode_def)
  then obtain d where "d < 16" "c = hex_digit d"
    using byte_nibbles [of b] by blast
  then show ?thesis
    by (simp add: hex_digit_ascii hex_digit_not_sep)
qed

lemma utf8_decode_ascii: "(\<And>b. b \<in> set bs \<Longrightarrow> (of_char b :: nat) < 128) \<Longrightarrow> utf8_decode bs = Some bs"
  by (induction bs rule: utf8_decode.induct) (simp_all add: Let_def)




lemma encode_attributes_eq:
  "encode_attributes json_dumps x = Inr (''ID='' @ b16encode (utf8_encode (json_dumps x)))"
proof -
  have "utf8_decode (b16encode bs) = Some (b16encode bs)" for bs
    by (rule utf8_decode_ascii) (simp add: b16encode_chars)
  then show ?thesis
    by (simp add: encode_attributes_def)
qed

subsection \<open>Tsv2Gff3: ranks, the order of the records, the start coordinate\<close>

lemma Chroms_of_snoc: "Chroms_of (xs @ [x]) = (Chroms_of xs)(x \<mapsto> length xs)"
  by (simp add: Chroms_of_def enumerate_append_eq)

lemma Chroms_of_dom: "dom (Chroms_of names) = set names"
proof (induction names rule: rev_induct)
  case Nil
  then show ?case by (simp add: Chroms_of_def)
next
  case (snoc x xs)
  have "dom (Chroms_of (xs @ [x])) = insert x (dom (Chroms_of xs))"
    by (simp only: Chroms_of_snoc dom_fun_upd) simp
  with snoc show ?case by simp
qed

lemma Chroms_of_distinct:
  "distinct names \<Longrightarrow> i < length names \<Longrightarrow> Chroms_of names (names ! i) = Some i"
proof (induction names rule: rev_induct)
  case Nil
  then show ?case by simp
next
  case (snoc x xs)
  show ?case
  proof (cases "i < length xs")
    case True
    with snoc.prems have "xs ! i \<noteq> x" by auto
    with True snoc show ?thesis
      by (simp add: Chroms_of_snoc nth_append)
  next
    case False
    with snoc.prems have "i = length xs" by simp
    then show ?thesis by (simp add: Chroms_of_snoc)
  qed
qed

lemma Chroms_of_None: "Chroms_of names c = None \<longleftrightarrow> c \<notin> set names"
  using Chroms_of_dom [of names] by (metis domIff)

text \<open>The rows kept and ranked, and the rows in the order they are written.\<close>

lemma ranked_rows:
  "List.map_filter (\<lambda>r. map_option (\<lambda>Rank. (Rank, r)) (C (ChromCol r))) rows
   = map (\<lambda>r. (the (C (ChromCol r)), r)) (filter (\<lambda>r. C (ChromCol r) \<noteq> None) rows)"
  by (induction rows) auto

lemma Tsv2Gff3_unfold:
  fixes InputTSV :: "'v db_table" and Faidx :: "(string \<times> nat) list"
  defines "C \<equiv> Chroms_of (map fst Faidx)"
  defines "Data \<equiv> sort_key (\<lambda>(Rank, r). (Rank, StartCol r))
                   (map (\<lambda>r. (the (C (ChromCol r)), r))
                      (filter (\<lambda>r. C (ChromCol r) \<noteq> None) (Rows InputTSV)))"
  shows "Tsv2Gff3 json_dumps dbName InputTSV Faidx =
     (if Data = [] then Inl RuntimeError
      else Inr (\<lparr>sequence_regions = Faidx,
                 records =
                   map (\<lambda>(Rank, r).
                          \<lparr>seqid = ChromCol r, sample = dbName, feature_type = ''region'',
                           gff_start = (if StartCol r = 0 then 1 else StartCol r),
                           gff_end = EndCol r, score = ''.'', strand = ''.'', phase = ''.'',
                           attributes = ''ID='' @ b16encode (utf8_encode
                              (json_dumps (to_dict (AttributeCols InputTSV) r)))\<rparr>)
                     Data\<rparr>,
                if AttributeCols InputTSV \<noteq> []
                then map (\<lambda>item. dbName @ ''.'' @ item) (AttributeCols InputTSV)
                else [dbName]))"
proof -
  have c: "collect (\<lambda>(Rank, r). encode_attributes json_dumps (to_dict (AttributeCols InputTSV) r)) Data
        = Inr (map (\<lambda>(Rank, r). ''ID='' @ b16encode (utf8_encode
                 (json_dumps (to_dict (AttributeCols InputTSV) r)))) Data)"
    by (rule collect_Inr) (auto simp: encode_attributes_eq)
  have z: "map f (zip Data (map g Data)) = map (\<lambda>x. f (x, g x)) Data" for f :: "_ \<Rightarrow> gff3_record" and g :: "_ \<Rightarrow> string"
    by (induction Data) simp_all
  show ?thesis
    unfolding Tsv2Gff3_def Let_def ranked_rows C_def [symmetric] Data_def [symmetric]
    by (simp add: c [unfolded case_prod_unfold] z case_prod_unfold)
qed

lemma clamp_mono:
  fixes a b :: "nat \<times> int"
  assumes "a \<le> b"
  shows "(fst a, if snd a = 0 then 1 else snd a) \<le> (fst b, if snd b = 0 then 1 else snd b)"
  using assms by (cases a; cases b) (auto simp: less_eq_prod_def)

lemma sorted_clamp:
  fixes ks :: "(nat \<times> int) list"
  assumes "sorted ks"
  shows "sorted (map (\<lambda>k. (fst k, if snd k = 0 then 1 else snd k)) ks)"
  using assms by (rule sorted_wrt_map_mono) (rule clamp_mono)

text \<open>
  Claim C7. When Tsv2Gff3 ends without error, the records it writes are in non-decreasing
  order of the pair (rank of the contig, start as written), in the lexicographic order of
  pairs. Every written contig has a rank, and the rank of a contig is its position in the
  reference index (for an index without repeated names).
\<close>

theorem Tsv2Gff3_sorted:
  fixes InputTSV :: "'v db_table" and Faidx :: "(string \<times> nat) list"
  assumes "Tsv2Gff3 json_dumps dbName InputTSV Faidx = Inr (file, cols)"
  shows "(\<forall>g\<in>set (records file). \<exists>Rank. Chroms_of (map fst Faidx) (seqid g) = Some Rank)
       \<and> sorted (map (\<lambda>g. (the (Chroms_of (map fst Faidx) (seqid g)), gff_start g)) (records file))
       \<and> (distinct (map fst Faidx) \<longrightarrow>
            (\<forall>i<length Faidx. Chroms_of (map fst Faidx) (fst (Faidx ! i)) = Some i))"
proof -
  define C where "C = Chroms_of (map fst Faidx)"
  define Data where "Data = sort_key (\<lambda>(Rank, r). (Rank, StartCol r))
                   (map (\<lambda>r. (the (C (ChromCol r)), r))
                      (filter (\<lambda>r. C (ChromCol r) \<noteq> None) (Rows InputTSV)))"
  define mk where "mk = (\<lambda>(Rank :: nat, r :: 'v db_row).
                          \<lparr>seqid = ChromCol r, sample = dbName, feature_type = ''region'',
                           gff_start = (if StartCol r = 0 then 1 else StartCol r),
                           gff_end = EndCol r, score = ''.'', strand = ''.'', phase = ''.'',
                           attributes = ''ID='' @ b16encode (utf8_encode
                              (json_dumps (to_dict (AttributeCols InputTSV) r)))\<rparr>)"
  have recs: "records file = map mk Data"
    using assms unfolding Tsv2Gff3_unfold C_def [symmetric] Data_def [symmetric] mk_def [symmetric]
    by (auto split: if_splits)
  have mem: "C (ChromCol r) = Some Rank" if "(Rank, r) \<in> set Data" for Rank r
    using that by (auto simp: Data_def)
  have a: "\<forall>g\<in>set (records file). \<exists>Rank. C (seqid g) = Some Rank"
    using mem by (auto simp: recs mk_def)
  have keys: "map (\<lambda>g. (the (C (seqid g)), gff_start g)) (records file)
      = map (\<lambda>k. (fst k, if snd k = 0 then 1 else snd k)) (map (\<lambda>(Rank, r). (Rank, StartCol r)) Data)"
    using mem by (auto simp: recs mk_def)
  have "sorted (map (\<lambda>(Rank, r). (Rank, StartCol r)) Data)"
    unfolding Data_def by (rule sorted_sort_key)
  then have b: "sorted (map (\<lambda>g. (the (C (seqid g)), gff_start g)) (records file))"
    unfolding keys by (rule sorted_clamp)
  have c: "distinct (map fst Faidx) \<longrightarrow> (\<forall>i<length Faidx. C (fst (Faidx ! i)) = Some i)"
    using Chroms_of_distinct [of "map fst Faidx"] by (auto simp: C_def)
  from a b c show ?thesis
    unfolding C_def by blast
qed

text \<open>
  Claim C6, amended. Every row of the table whose contig is in the reference index is
  written exactly once, with its contig and end unchanged and with its start rewritten to
  1 when it is 0 and unchanged otherwise. So every written start is at least 1 when no
  start of the table is negative.
\<close>

theorem Tsv2Gff3_start:
  fixes InputTSV :: "'v db_table" and Faidx :: "(string \<times> nat) list"
  assumes "Tsv2Gff3 json_dumps dbName InputTSV Faidx = Inr (file, cols)"
  shows "mset (map (\<lambda>g. (seqid g, gff_start g, gff_end g)) (records file))
           = image_mset (\<lambda>r. (ChromCol r, (if StartCol r = 0 then 1 else StartCol r), EndCol r))
               (filter_mset (\<lambda>r. ChromCol r \<in> fst ` set Faidx) (mset (Rows InputTSV)))
       \<and> ((\<forall>r\<in>set (Rows InputTSV). 0 \<le> StartCol r) \<longrightarrow> (\<forall>g\<in>set (records file). 1 \<le> gff_start g))"
proof -
  define C where "C = Chroms_of (map fst Faidx)"
  define kept where "kept = map (\<lambda>r. (the (C (ChromCol r)), r))
                      (filter (\<lambda>r. C (ChromCol r) \<noteq> None) (Rows InputTSV))"
  define Data where "Data = sort_key (\<lambda>(Rank, r). (Rank, StartCol r)) kept"
  define mk where "mk = (\<lambda>(Rank :: nat, r :: 'v db_row).
                          \<lparr>seqid = ChromCol r, sample = dbName, feature_type = ''region'',
                           gff_start = (if StartCol r = 0 then 1 else StartCol r),
                           gff_end = EndCol r, score = ''.'', strand = ''.'', phase = ''.'',
                           attributes = ''ID='' @ b16encode (utf8_encode
                              (json_dumps (to_dict (AttributeCols InputTSV) r)))\<rparr>)"
  have recs: "records file = map mk Data"
    using assms
    unfolding Tsv2Gff3_unfold C_def [symmetric] kept_def [symmetric] Data_def [symmetric] mk_def [symmetric]
    by (auto split: if_splits)
  have inC: "(\<exists>y. C c = Some y) \<longleftrightarrow> c \<in> fst ` set Faidx" for c
    using Chroms_of_None [of "map fst Faidx" c] by (cases "C c") (simp_all add: C_def)
  have "map (\<lambda>g. (seqid g, gff_start g, gff_end g)) (records file)
      = map (\<lambda>p. (ChromCol (snd p), (if StartCol (snd p) = 0 then 1 else StartCol (snd p)), EndCol (snd p))) Data"
    by (simp add: recs mk_def case_prod_unfold)
  then have "mset (map (\<lambda>g. (seqid g, gff_start g, gff_end g)) (records file))
      = image_mset (\<lambda>p. (ChromCol (snd p), (if StartCol (snd p) = 0 then 1 else StartCol (snd p)), EndCol (snd p)))
          (mset kept)"
    by (simp add: Data_def)
  also have "\<dots> = image_mset (\<lambda>r. (ChromCol r, (if StartCol r = 0 then 1 else StartCol r), EndCol r))
               (filter_mset (\<lambda>r. ChromCol r \<in> fst ` set Faidx) (mset (Rows InputTSV)))"
  proof -
    have "map snd kept = filter (\<lambda>r. ChromCol r \<in> fst ` set Faidx) (Rows InputTSV)"
      by (simp add: kept_def comp_def inC)
    then have "image_mset snd (mset kept)
        = filter_mset (\<lambda>r. ChromCol r \<in> fst ` set Faidx) (mset (Rows InputTSV))"
      by (metis mset_filter mset_map)
    then have "image_mset (\<lambda>r. (ChromCol r, (if StartCol r = 0 then 1 else StartCol r), EndCol r))
                 (image_mset snd (mset kept))
        = image_mset (\<lambda>r. (ChromCol r, (if StartCol r = 0 then 1 else StartCol r), EndCol r))
            (filter_mset (\<lambda>r. ChromCol r \<in> fst ` set Faidx) (mset (Rows InputTSV)))"
      by (rule arg_cong)
    then show ?thesis
      by (simp only: image_mset.compositionality comp_def)
  qed
  finally have a: "mset (map (\<lambda>g. (seqid g, gff_start g, gff_end g)) (records file))
           = image_mset (\<lambda>r. (ChromCol r, (if StartCol r = 0 then 1 else StartCol r), EndCol r))
               (filter_mset (\<lambda>r. ChromCol r \<in> fst ` set Faidx) (mset (Rows InputTSV)))" .
  have b: "\<forall>g\<in>set (records file). 1 \<le> gff_start g" if nn: "\<forall>r\<in>set (Rows InputTSV). 0 \<le> StartCol r"
  proof
    fix g assume "g \<in> set (records file)"
    then obtain Rank r where "(Rank, r) \<in> set Data" "g = mk (Rank, r)"
      by (auto simp: recs)
    then have "r \<in> set (Rows InputTSV)" "gff_start g = (if StartCol r = 0 then 1 else StartCol r)"
      by (auto simp: Data_def kept_def mk_def)
    with nn show "1 \<le> gff_start g"
      by (cases "StartCol r = 0") force+
  qed
  from a b show ?thesis by blast
qed

lemma Tsv2Gff3_example:
  "Tsv2Gff3 dumps_plain ''dbA''
     \<lparr>AttributeCols = [''tier''],
      Rows = [\<lparr>ChromCol = ''chr2'', StartCol = 5, EndCol = 9, AttributeVals = [''1'']\<rparr>,
              \<lparr>ChromCol = ''chr10'', StartCol = 0, EndCol = 9, AttributeVals = [''2'']\<rparr>,
              \<lparr>ChromCol = ''chrUn'', StartCol = 3, EndCol = 9, AttributeVals = [''2'']\<rparr>,
              \<lparr>ChromCol = ''chr2'', StartCol = 2, EndCol = 4, AttributeVals = [''3'']\<rparr>]\<rparr>
     [(''chr2'', 100), (''chr10'', 50)]
   = Inr (\<lparr>sequence_regions = [(''chr2'', 100), (''chr10'', 50)],
           records =
             [\<lparr>seqid = ''chr2'', sample = ''dbA'', feature_type = ''region'', gff_start = 2,
               gff_end = 4, score = ''.'', strand = ''.'', phase = ''.'',
               attributes = ''ID=7B2274696572223A202233227D''\<rparr>,
              \<lparr>seqid = ''chr2'', sample = ''dbA'', feature_type = ''region'', gff_start = 5,
               gff_end = 9, score = ''.'', strand = ''.'', phase = ''.'',
               attributes = ''ID=7B2274696572223A202231227D''\<rparr>,
              \<lparr>seqid = ''chr10'', sample = ''dbA'', feature_type = ''region'', gff_start = 1,
               gff_end = 9, score = ''.'', strand = ''.'', phase = ''.'',
               attributes = ''ID=7B2274696572223A202232227D''\<rparr>]\<rparr>,
          [''dbA.tier''])"
  by code_simp

theorem Tsv2Gff3_sorted_witness:
  "Tsv2Gff3 dumps_plain ''dbA''
     \<lparr>AttributeCols = [''tier''],
      Rows = [\<lparr>ChromCol = ''chr2'', StartCol = 5, EndCol = 9, AttributeVals = [''1'']\<rparr>,
              \<lparr>ChromCol = ''chr10'', StartCol = 0, EndCol = 9, AttributeVals = [''2'']\<rparr>,
              \<lparr>ChromCol = ''chrUn'', StartCol = 3, EndCol = 9, AttributeVals = [''2'']\<rparr>,
              \<lparr>ChromCol = ''chr2'', StartCol = 2, EndCol = 4, AttributeVals = [''3'']\<rparr>]\<rparr>
     [(''chr2'', 100), (''chr10'', 50)]
   = Inr (\<lparr>sequence_regions = [(''chr2'', 100), (''chr10'', 50)],
           records =
             [\<lparr>seqid = ''chr2'', sample = ''dbA'', feature_type = ''region'', gff_start = 2,
               gff_end = 4, score = ''.'', strand = ''.'', phase = ''.'',
               attributes = ''ID=7B2274696572223A202233227D''\<rparr>,
              \<lparr>seqid = ''chr2'', sample = ''dbA'', feature_type = ''region'', gff_start = 5,
               gff_end = 9, score = ''.'', strand = ''.'', phase = ''.'',
               attributes = ''ID=7B2274696572223A202231227D''\<rparr>,
              \<lparr>seqid = ''chr10'', sample = ''dbA'', feature_type = ''region'', gff_start = 1,
               gff_end = 9, score = ''.'', strand = ''.'', phase = ''.'',
               attributes = ''ID=7B2274696572223A202232227D''\<rparr>]\<rparr>,
          [''dbA.tier''])
   \<and> sorted (map (\<lambda>g. (the (Chroms_of (map fst [(''chr2'', 100), (''chr10'', 50)]) (seqid g)), gff_start g))
        (records \<lparr>sequence_regions = [(''chr2'', 100), (''chr10'', 50)],
           records =
             [\<lparr>seqid = ''chr2'', sample = ''dbA'', feature_type = ''region'', gff_start = 2,
               gff_end = 4, score = ''.'', strand = ''.'', phase = ''.'',
               attributes = ''ID=7B2274696572223A202233227D''\<rparr>,
              \<lparr>seqid = ''chr2'', sample = ''dbA'', feature_type = ''region'', gff_start = 5,
               gff_end = 9, score = ''.'', strand = ''.'', phase = ''.'',
               attributes = ''ID=7B2274696572223A202231227D''\<rparr>,
              \<lparr>seqid = ''chr10'', sample = ''dbA'', feature_type = ''region'', gff_start = 1,
               gff_end = 9, score = ''.'', strand = ''.'', phase = ''.'',
               attributes = ''ID=7B2274696572223A202232227D''\<rparr>]\<rparr>))
   \<and> Chroms_of (map fst [(''chr2'', 100), (''chr10'', 50)]) ''chr10'' = Some 1"
  using Tsv2Gff3_sorted [OF Tsv2Gff3_example] Tsv2Gff3_example by (simp add: All_less_Suc)

theorem Tsv2Gff3_start_witness:
  "Tsv2Gff3 dumps_plain ''dbA''
     \<lparr>AttributeCols = [''tier''],
      Rows = [\<lparr>ChromCol = ''chr2'', StartCol = 5, EndCol = 9, AttributeVals = [''1'']\<rparr>,
              \<lparr>ChromCol = ''chr10'', StartCol = 0, EndCol = 9, AttributeVals = [''2'']\<rparr>,
              \<lparr>ChromCol = ''chrUn'', StartCol = 3, EndCol = 9, AttributeVals = [''2'']\<rparr>,
              \<lparr>ChromCol = ''chr2'', StartCol = 2, EndCol = 4, AttributeVals = [''3'']\<rparr>]\<rparr>
     [(''chr2'', 100), (''chr10'', 50)]
   = Inr (\<lparr>sequence_regions = [(''chr2'', 100), (''chr10'', 50)],
           records =
             [\<lparr>seqid = ''chr2'', sample = ''dbA'', feature_type = ''region'', gff_start = 2,
               gff_end = 4, score = ''.'', strand = ''.'', phase = ''.'',
               attributes = ''ID=7B2274696572223A202233227D''\<rparr>,
              \<lparr>seqid = ''chr2'', sample = ''dbA'', feature_type = ''region'', gff_start = 5,
               gff_end = 9, score = ''.'', strand = ''.'', phase = ''.'',
               attributes = ''ID=7B2274696572223A202231227D''\<rparr>,
              \<lparr>seqid = ''chr10'', sample = ''dbA'', feature_type = ''region'', gff_start = 1,
               gff_end = 9, score = ''.'', strand = ''.'', phase = ''.'',
               attributes = ''ID=7B2274696572223A202232227D''\<rparr>]\<rparr>,
          [''dbA.tier''])
   \<and> list_all (\<lambda>g. 1 \<le> gff_start g) (records \<lparr>sequence_regions = [(''chr2'', 100), (''chr10'', 50)],
           records =
             [\<lparr>seqid = ''chr2'', sample = ''dbA'', feature_type = ''region'', gff_start = 2,
               gff_end = 4, score = ''.'', strand = ''.'', phase = ''.'',
               attributes = ''ID=7B2274696572223A202233227D''\<rparr>,
              \<lparr>seqid = ''chr2'', sample = ''dbA'', feature_type = ''region'', gff_start = 5,
               gff_end = 9, score = ''.'', strand = ''.'', phase = ''.'',
               attributes = ''ID=7B2274696572223A202231227D''\<rparr>,
              \<lparr>seqid = ''chr10'', sample = ''dbA'', feature_type = ''region'', gff_start = 1,
               gff_end = 9, score = ''.'', strand = ''.'', phase = ''.'',
               attributes = ''ID=7B2274696572223A202232227D''\<rparr>]\<rparr>)"
  using Tsv2Gff3_start [OF Tsv2Gff3_example] Tsv2Gff3_example by simp

text \<open>
  Claim C6 as stated says that every written record has a start of at least 1. A row with
  the start \<open>-5\<close> is written with the start \<open>-5\<close>.
\<close>

theorem Tsv2Gff3_start_counterexample:
  "Tsv2Gff3 dumps_plain ''dbA''
     \<lparr>AttributeCols = [],
      Rows = [\<lparr>ChromCol = ''chr1'', StartCol = - 5, EndCol = 9, AttributeVals = []\<rparr>]\<rparr>
     [(''chr1'', 100)]
   = Inr (\<lparr>sequence_regions = [(''chr1'', 100)],
           records =
             [\<lparr>seqid = ''chr1'', sample = ''dbA'', feature_type = ''region'', gff_start = - 5,
               gff_end = 9, score = ''.'', strand = ''.'', phase = ''.'',
               attributes = ''ID=7B7D''\<rparr>]\<rparr>,
          [''dbA''])
   \<and> \<not> (1 :: int) \<le> - 5"
  by code_simp

subsection \<open>Encoding and decoding the attributes\<close>













subsection \<open>CureBase: the merged columns\<close>

lemma and_then_Inr_iff: "and_then x f = Inr y \<longleftrightarrow> (\<exists>a. x = Inr a \<and> f a = Inr y)"
  by (cases x) simp_all

lemma collect_InrD:
  "collect f xs = Inr ys \<Longrightarrow> length ys = length xs \<and> (\<forall>i<length xs. f (xs ! i) = Inr (ys ! i))"
proof (induction xs arbitrary: ys)
  case Nil
  then show ?case by simp
next
  case (Cons x xs)
  from Cons.prems obtain y ys' where y: "f x = Inr y" and ys': "collect f xs = Inr ys'" and ys: "ys = y # ys'"
    by (auto simp: and_then_Inr_iff)
  from Cons.IH [OF ys'] have "length ys' = length xs" "\<forall>i<length xs. f (xs ! i) = Inr (ys' ! i)"
    by simp_all
  with y ys show ?case
    by (auto simp: nth_Cons split: nat.split)
qed


lemma fold_err_invariant:
  assumes "fold_err f xs s = Inr s'" and "P s"
    and "\<And>x t t'. x \<in> set xs \<Longrightarrow> f x t = Inr t' \<Longrightarrow> P t \<Longrightarrow> P t'"
  shows "P s'"
  using assms
proof (induction xs arbitrary: s)
  case Nil
  then show ?case by simp
next
  case (Cons x xs)
  from Cons.prems(1) obtain t where t: "f x s = Inr t" "fold_err f xs t = Inr s'"
    by (auto simp: and_then_Inr_iff)
  have "P t" using Cons.prems(3) [of x s t] t(1) Cons.prems(2) by simp
  moreover have "\<And>y u u'. y \<in> set xs \<Longrightarrow> f y u = Inr u' \<Longrightarrow> P u \<Longrightarrow> P u'"
    using Cons.prems(3) by (meson list.set_intros(2))
  ultimately show ?case
    using Cons.IH [OF t(2)] by blast
qed

lemma column_of_iff: "column_of Name c \<longleftrightarrow> c = Name \<or> (\<exists>k. c = Name @ ''.'' @ k)"
proof
  assume "column_of Name c"
  then consider "c = Name" | "take (length Name + 1) c = Name @ ''.''"
    by (auto simp: column_of_def)
  then show "c = Name \<or> (\<exists>k. c = Name @ ''.'' @ k)"
  proof cases
    case 1
    then show ?thesis by simp
  next
    case 2
    then have "c = (Name @ ''.'') @ drop (length Name + 1) c"
      by (metis append_take_drop_id)
    then show ?thesis by (metis append.assoc)
  qed
next
  assume "c = Name \<or> (\<exists>k. c = Name @ ''.'' @ k)"
  then show "column_of Name c"
    by (auto simp: column_of_def)
qed

lemma column_of_name:
  assumes "CHR ''.'' \<notin> set Name" "column_of Name c"
  shows "takeWhile (\<lambda>x. x \<noteq> CHR ''.'') c = Name"
proof -
  from assms(2) consider "c = Name" | k where "c = Name @ ''.'' @ k"
    by (auto simp: column_of_iff)
  then show ?thesis
  proof cases
    case 1
    with assms(1) show ?thesis by (auto simp add: takeWhile_eq_all_conv)
  next
    case 2
    have "takeWhile (\<lambda>x. x \<noteq> CHR ''.'') (Name @ (CHR ''.'' # k)) = Name"
      using assms(1) by (subst takeWhile_append2) auto
    with 2 show ?thesis by simp
  qed
qed

lemma column_of_unique:
  assumes "CHR ''.'' \<notin> set N" "CHR ''.'' \<notin> set N'" "column_of N c" "column_of N' c"
  shows "N = N'"
  using column_of_name [OF assms(1,3)] column_of_name [OF assms(2,4)] by simp

lemma overlap_series_columns:
  assumes "overlap_series Name LD = Inr al" "(c, vs) \<in> set al"
  shows "column_of Name c"
proof (cases LD)
  case Nil
  with assms show ?thesis by (simp add: overlap_series_def)
next
  case (Cons d0 rest)
  show ?thesis
  proof (cases "d0 = []")
    case True
    with Cons assms show ?thesis by (auto simp: overlap_series_def column_of_def)
  next
    case False
    with Cons assms(1) have c: "collect
                 (\<lambda>k. and_then
                    (collect (\<lambda>dic. case map_of dic k of None \<Rightarrow> Inl KeyError | Some v \<Rightarrow> Inr v) LD)
                    (\<lambda>vs. Inr (Name @ ''.'' @ k, vs)))
                 (map fst d0) = Inr al"
      by (simp add: overlap_series_def)
    from assms(2) obtain i where i: "i < length al" "al ! i = (c, vs)"
      by (auto simp: in_set_conv_nth)
    from collect_InrD [OF c] i have "\<exists>a. (Name @ ''.'' @ fst (d0 ! i), a) = al ! i"
      by (auto simp: and_then_Inr_iff)
    with i(2) have "\<exists>k. c = Name @ ''.'' @ k"
      by (metis fst_conv)
    then show ?thesis by (auto simp: column_of_iff)
  qed
qed

lemma add_database_cases:
  assumes "add_database Name Col D = Inr D'" and "length (cells D) = length Col"
  obtains (unchanged) "D' = D" "\<forall>x\<in>set Col. x = Dot"
  | (added) NewCols new where
      "length NewCols = length Col"
      "\<forall>r<length Col. Col ! r = Dot \<longrightarrow> NewCols ! r = None"
      "\<forall>r<length Col. \<forall>LD. Col ! r = Overlaps LD \<longrightarrow>
          (\<exists>al. overlap_series Name LD = Inr al \<and> NewCols ! r = Some al)"
      "new = remdups (concat (map (\<lambda>s. case s of None \<Rightarrow> [] | Some al \<Rightarrow> map fst al) NewCols))"
      "columns D' = columns D @ new"
      "length (cells D') = length Col"
      "\<forall>r<length Col. cells D' ! r =
          (\<lambda>c. if c \<in> set new
               then Some (case NewCols ! r of
                            None \<Rightarrow> NaN
                          | Some al \<Rightarrow> (case map_of al c of None \<Rightarrow> NaN | Some vs \<Rightarrow> Values vs))
               else (cells D ! r) c)"
proof (cases "list_all (\<lambda>x. x = Dot) Col")
  case True
  with assms(1) have "D' = D" by (simp add: add_database_def)
  moreover from True have "\<forall>x\<in>set Col. x = Dot" by (simp add: list_all_iff)
  ultimately show ?thesis by (rule unchanged)
next
  case False
  define step where "step = (\<lambda>x. case x of
                              Dot \<Rightarrow> Inr None
                            | Overlaps LD \<Rightarrow> and_then (overlap_series Name LD) (\<lambda>s. Inr (Some s)))"
  from False assms(1) obtain NewCols where
    nc: "collect step Col = Inr NewCols" and
    d': "D' = (let new = remdups (concat (map (\<lambda>s. case s of None \<Rightarrow> [] | Some al \<Rightarrow> map fst al) NewCols))
                in \<lparr>columns = columns D @ new,
                        cells =
                          map (\<lambda>(r, s). \<lambda>c.
                                 if c \<in> set new
                                 then Some (case s of
                                              None \<Rightarrow> NaN
                                            | Some al \<Rightarrow>
                                                (case map_of al c of None \<Rightarrow> NaN | Some vs \<Rightarrow> Values vs))
                                 else r c)
                            (zip (cells D) NewCols)\<rparr>)"
    unfolding add_database_def step_def by (auto simp: and_then_Inr_iff Let_def)
  define new where "new = remdups (concat (map (\<lambda>s. case s of None \<Rightarrow> [] | Some al \<Rightarrow> map fst al) NewCols))"
  from collect_InrD [OF nc] have len: "length NewCols = length Col"
    and each: "\<forall>r<length Col. step (Col ! r) = Inr (NewCols ! r)"
    by simp_all
  have a: "\<forall>r<length Col. Col ! r = Dot \<longrightarrow> NewCols ! r = None"
    using each by (auto simp: step_def)
  have b: "\<forall>r<length Col. \<forall>LD. Col ! r = Overlaps LD \<longrightarrow>
          (\<exists>al. overlap_series Name LD = Inr al \<and> NewCols ! r = Some al)"
  proof (intro allI impI)
    fix r LD assume "r < length Col" "Col ! r = Overlaps LD"
    with each have "and_then (overlap_series Name LD) (\<lambda>s. Inr (Some s)) = Inr (NewCols ! r)"
      by (auto simp: step_def)
    then show "\<exists>al. overlap_series Name LD = Inr al \<and> NewCols ! r = Some al"
      by (auto simp: and_then_Inr_iff)
  qed
  have c: "columns D' = columns D @ new"
    by (simp add: d' new_def Let_def)
  have d: "length (cells D') = length Col"
    using assms(2) len by (simp add: d' Let_def)
  have e: "\<forall>r<length Col. cells D' ! r =
          (\<lambda>c. if c \<in> set new
               then Some (case NewCols ! r of
                            None \<Rightarrow> NaN
                          | Some al \<Rightarrow> (case map_of al c of None \<Rightarrow> NaN | Some vs \<Rightarrow> Values vs))
               else (cells D ! r) c)"
    using assms(2) len by (simp add: d' new_def [symmetric] Let_def)
  from len a b new_def c d e show ?thesis by (rule added)
qed

lemma add_database_length:
  assumes "add_database Name Col D = Inr D'" and "length (cells D) = length Col"
  shows "length (cells D') = length Col"
  using assms(1,2)
proof (cases rule: add_database_cases)
  case unchanged
  with assms(2) show ?thesis by simp
next
  case (added NewCols new)
  then show ?thesis by simp
qed

lemma add_database_other:
  assumes "add_database Name Col D = Inr D'" and "length (cells D) = length Col"
    and "r < length Col" and "\<not> column_of Name c"
  shows "(cells D' ! r) c = (cells D ! r) c"
  using assms(1,2)
proof (cases rule: add_database_cases)
  case unchanged
  then show ?thesis by simp
next
  case (added NewCols new)
  have "c \<notin> set new"
  proof
    assume "c \<in> set new"
    then obtain s al where "s \<in> set NewCols" "s = Some al" "c \<in> fst ` set al"
      unfolding added(4) by (auto split: option.splits)
    then obtain j vs where j: "j < length Col" "NewCols ! j = Some al" "(c, vs) \<in> set al"
      using added(1) by (auto simp: in_set_conv_nth)
    from j(1,2) added(2) obtain LD where "Col ! j = Overlaps LD"
      by (cases "Col ! j") auto
    with j(1,2) added(3) have "overlap_series Name LD = Inr al" by auto
    from overlap_series_columns [OF this j(3)] assms(4) show False by simp
  qed
  with added(7) assms(3) show ?thesis by simp
qed

lemma add_database_Dot:
  assumes "add_database Name Col D = Inr D'" and "length (cells D) = length Col"
    and "r < length Col" and "Col ! r = Dot"
  shows "(cells D' ! r) c = (cells D ! r) c \<or> (cells D' ! r) c = Some NaN"
  using assms(1,2)
proof (cases rule: add_database_cases)
  case unchanged
  then show ?thesis by simp
next
  case (added NewCols new)
  from added(2) assms(3,4) have "NewCols ! r = None" by simp
  with added(7) assms(3) show ?thesis by simp
qed


lemma collect_keyed:
  assumes "collect g cols = Inr al" and "\<And>c y. g c = Inr y \<Longrightarrow> fst y = c" and "c \<in> set cols"
  shows "\<exists>t. g c = Inr (c, t) \<and> map_of al c = Some t"
  using assms(1,3)
proof (induction cols arbitrary: al)
  case Nil
  then show ?case by simp
next
  case (Cons x xs)
  from Cons.prems(1) obtain y ys where y: "g x = Inr y" and ys: "collect g xs = Inr ys" and al: "al = y # ys"
    by (auto simp: and_then_Inr_iff)
  from assms(2) [OF y] obtain t where yt: "y = (x, t)" by (cases y) auto
  show ?case
  proof (cases "c = x")
    case True
    with y yt al show ?thesis by simp
  next
    case False
    with Cons.prems(2) have "c \<in> set xs" by simp
    from Cons.IH [OF ys this] False al yt show ?thesis by simp
  qed
qed

lemma collect_keys:
  assumes "collect g cols = Inr al" and "\<And>c y. g c = Inr y \<Longrightarrow> fst y = c"
  shows "map fst al = cols"
  using assms(1)
proof (induction cols arbitrary: al)
  case Nil
  then show ?case by simp
next
  case (Cons x xs)
  from Cons.prems(1) obtain y ys where y: "g x = Inr y" and ys: "collect g xs = Inr ys" and al: "al = y # ys"
    by (auto simp: and_then_Inr_iff)
  with assms(2) [OF y] Cons.IH [OF ys] show ?case by simp
qed

text \<open>What a successful run of the merge consists of.\<close>

lemma CureBase_merge_InrD:
  assumes "CureBase_merge json_loads Names ExpectedCols Table = Inr Out"
  obtains Decoded Data where
    "\<forall>row\<in>set Table. length (snd row) = length Names"
    "length Decoded = length Table"
    "\<forall>r<length Table. collect (decode_cell json_loads) (snd (Table ! r)) = Inr (Decoded ! r)"
    "fold_err (\<lambda>(index, Name) Data. add_database Name (map (\<lambda>row. row ! index) Decoded) Data)
       (enumerate 0 Names) \<lparr>columns = [], cells = map (\<lambda>row. Map.empty) Table\<rparr> = Inr Data"
    "length (cells Data) = length Table"
    "length Out = length Table"
    "\<forall>r<length Table. fst (Out ! r) = fst (Table ! r) \<and> map fst (snd (Out ! r)) = ExpectedCols"
    "\<forall>r<length Table. (\<forall>c\<in>set ExpectedCols.
        \<exists>x text. (if c \<in> set (columns Data) then (cells Data ! r) c else Some NaN) = Some x
          \<and> flatten x = Inr text \<and> map_of (snd (Out ! r)) c = Some text)"
proof -
  have wf: "\<forall>row\<in>set Table. length (snd row) = length Names"
    using assms by (auto simp: CureBase_merge_def list_ex_iff split: if_splits)
  then have nex: "\<not> list_ex (\<lambda>(key, raw). length raw \<noteq> length Names) Table"
    by (auto simp: list_ex_iff)
  from assms nex obtain Decoded Data Flat where
    dec: "collect (\<lambda>(key, raw). collect (decode_cell json_loads) raw) Table = Inr Decoded" and
    fold: "fold_err (\<lambda>(index, Name) Data. add_database Name (map (\<lambda>row. row ! index) Decoded) Data)
       (enumerate 0 Names) \<lparr>columns = [], cells = map (\<lambda>row. Map.empty) Table\<rparr> = Inr Data" and
    flat: "collect
             (\<lambda>r. collect
                     (\<lambda>c. case r c of
                             None \<Rightarrow> Inl KeyError
                           | Some x \<Rightarrow> and_then (flatten x) (\<lambda>text. Inr (c, text)))
                     (columns Data @ filter (\<lambda>item. item \<notin> set (columns Data)) ExpectedCols))
             (map (\<lambda>r. \<lambda>c. if c \<in> set (filter (\<lambda>item. item \<notin> set (columns Data)) ExpectedCols)
                            then Some NaN else r c) (cells Data)) = Inr Flat" and
    out: "collect
            (\<lambda>((key, raw), al).
               and_then
                 (collect (\<lambda>c. case map_of al c of
                                  None \<Rightarrow> Inl KeyError
                                | Some text \<Rightarrow> Inr (c, text))
                    ExpectedCols)
                 (\<lambda>row. Inr (key, row)))
            (zip Table Flat) = Inr Out"
    unfolding CureBase_merge_def by (auto simp: and_then_Inr_iff Let_def)
  from collect_InrD [OF dec] have dlen: "length Decoded = length Table"
    and deach: "\<forall>r<length Table. collect (decode_cell json_loads) (snd (Table ! r)) = Inr (Decoded ! r)"
    by (auto simp: case_prod_unfold)
  from collect_InrD [OF flat] have flen: "length Flat = length (cells Data)"
    and feach: "\<forall>r<length (cells Data). collect
                     (\<lambda>c. case (if c \<in> set (filter (\<lambda>item. item \<notin> set (columns Data)) ExpectedCols)
                            then Some NaN else (cells Data ! r) c) of
                             None \<Rightarrow> Inl KeyError
                           | Some x \<Rightarrow> and_then (flatten x) (\<lambda>text. Inr (c, text)))
                     (columns Data @ filter (\<lambda>item. item \<notin> set (columns Data)) ExpectedCols)
                  = Inr (Flat ! r)"
    by simp_all
  from collect_InrD [OF out] have olen: "length Out = min (length Table) (length Flat)"
    and oeach: "\<forall>r<min (length Table) (length Flat).
                  and_then
                 (collect (\<lambda>c. case map_of (Flat ! r) c of
                                  None \<Rightarrow> Inl KeyError
                                | Some text \<Rightarrow> Inr (c, text))
                    ExpectedCols)
                 (\<lambda>row. Inr (fst (Table ! r), row)) = Inr (Out ! r)"
    by (simp_all add: case_prod_unfold)
  have clen: "length (cells Data) = length Table"
  proof -
    have "length (cells Data) = length Table"
      using fold
    proof (rule fold_err_invariant [where P = "\<lambda>D. length (cells D) = length Table"])
      show "length (cells \<lparr>columns = [], cells = map (\<lambda>row. Map.empty) Table\<rparr>) = length Table"
        by simp
    next
      fix x t t'
      assume "x \<in> set (enumerate 0 Names)"
        and "(case x of (index, Name) \<Rightarrow> \<lambda>Data. add_database Name (map (\<lambda>row. row ! index) Decoded) Data) t = Inr t'"
        and "length (cells t) = length Table"
      then show "length (cells t') = length Table"
        using add_database_length [of "snd x" "map (\<lambda>row. row ! fst x) Decoded" t t'] dlen
        by (simp add: case_prod_unfold)
    qed
    then show ?thesis .
  qed
  have o1: "length Out = length Table"
    using olen flen clen by simp
  have row: "fst (Out ! r) = fst (Table ! r) \<and> map fst (snd (Out ! r)) = ExpectedCols
      \<and> (\<forall>c\<in>set ExpectedCols.
        \<exists>x text. (if c \<in> set (columns Data) then (cells Data ! r) c else Some NaN) = Some x
          \<and> flatten x = Inr text \<and> map_of (snd (Out ! r)) c = Some text)"
    if r: "r < length Table" for r
  proof -
    let ?M = "filter (\<lambda>item. item \<notin> set (columns Data)) ExpectedCols"
    let ?cell = "\<lambda>c. if c \<in> set ?M then Some NaN else (cells Data ! r) c"
    let ?g = "\<lambda>c. case ?cell c of
                             None \<Rightarrow> Inl KeyError
                           | Some x \<Rightarrow> and_then (flatten x) (\<lambda>text. Inr (c, text))"
    let ?h = "\<lambda>c. case map_of (Flat ! r) c of
                                  None \<Rightarrow> Inl KeyError
                                | Some text \<Rightarrow> Inr (c, text)"
    from feach r clen have f: "collect ?g (columns Data @ ?M) = Inr (Flat ! r)"
      by simp
    from oeach r flen clen obtain sel where sel: "collect ?h ExpectedCols = Inr sel"
      and outr: "Out ! r = (fst (Table ! r), sel)"
      by (auto simp: and_then_Inr_iff)
    have gk: "\<And>c y. ?g c = Inr y \<Longrightarrow> fst y = c"
      by (auto simp: and_then_Inr_iff split: option.splits if_splits)
    have hk: "\<And>c y. ?h c = Inr y \<Longrightarrow> fst y = c"
      by (auto split: option.splits)
    have keys: "map fst sel = ExpectedCols"
      using collect_keys [OF sel hk] .
    have each: "\<exists>x text. (if c \<in> set (columns Data) then (cells Data ! r) c else Some NaN) = Some x
          \<and> flatten x = Inr text \<and> map_of sel c = Some text"
      if c: "c \<in> set ExpectedCols" for c
    proof -
      have "c \<in> set (columns Data @ ?M)" using c by auto
      from collect_keyed [OF f gk this] obtain t where t: "?g c = Inr (c, t)" "map_of (Flat ! r) c = Some t"
        by blast
      from t(1) obtain x where x: "?cell c = Some x" "flatten x = Inr t"
        by (auto simp: and_then_Inr_iff split: option.splits)
      from collect_keyed [OF sel hk c] t(2) have "map_of sel c = Some t"
        by auto
      moreover have "?cell c = (if c \<in> set (columns Data) then (cells Data ! r) c else Some NaN)"
        using c by simp
      ultimately show ?thesis using x by auto
    qed
    from outr keys each show ?thesis by simp
  qed
  show ?thesis
  proof (rule that [of Decoded Data])
    show "\<forall>row\<in>set Table. length (snd row) = length Names" by (rule wf)
    show "length Decoded = length Table" by (rule dlen)
    show "\<forall>r<length Table. collect (decode_cell json_loads) (snd (Table ! r)) = Inr (Decoded ! r)"
      by (rule deach)
    show "fold_err (\<lambda>(index, Name) Data. add_database Name (map (\<lambda>row. row ! index) Decoded) Data)
       (enumerate 0 Names) \<lparr>columns = [], cells = map (\<lambda>row. Map.empty) Table\<rparr> = Inr Data"
      by (rule fold)
    show "length (cells Data) = length Table" by (rule clen)
    show "length Out = length Table" by (rule o1)
    show "\<forall>r<length Table. fst (Out ! r) = fst (Table ! r) \<and> map fst (snd (Out ! r)) = ExpectedCols"
      using row by blast
    show "\<forall>r<length Table. (\<forall>c\<in>set ExpectedCols.
        \<exists>x text. (if c \<in> set (columns Data) then (cells Data ! r) c else Some NaN) = Some x
          \<and> flatten x = Inr text \<and> map_of (snd (Out ! r)) c = Some text)"
      using row by blast
  qed
qed

lemma decode_cell_Dot: "decode_cell json_loads ''.'' = Inr Dot"
  by (simp add: decode_cell_def)

lemma other_database_column:
  assumes "distinct Names" and "\<forall>n\<in>set Names. CHR ''.'' \<notin> set n"
    and "i < length Names" and "j < length Names" and "j \<noteq> i" and "column_of (Names ! i) c"
  shows "\<not> column_of (Names ! j) c"
proof
  assume "column_of (Names ! j) c"
  with assms(2,3,4,6) have "Names ! j = Names ! i"
    by (meson column_of_unique nth_mem)
  with assms(1,3,4,5) show False
    by (simp add: nth_eq_iff_index_eq)
qed

text \<open>
  Claim C5, amended. Let the database names be different from each other and free of
  dots. When the merge ends without error, every variant is in the result with its key
  and with exactly the expected columns; and if the overlap column of a database is the
  sentinel for a variant, every expected column of that database (its name, or its name,
  a dot and a sub-field name) is \<open>.\<close> for that variant, whether the column was made by
  other variants or was never observed.
\<close>

theorem CureBase_no_overlap_sentinel:
  assumes "CureBase_merge json_loads Names ExpectedCols Table = Inr Out"
    and "distinct Names" and "\<forall>n\<in>set Names. CHR ''.'' \<notin> set n"
    and "r < length Table" and "i < length Names" and "snd (Table ! r) ! i = ''.''"
    and "c \<in> set ExpectedCols" and "column_of (Names ! i) c"
  shows "length Out = length Table \<and> fst (Out ! r) = fst (Table ! r)
       \<and> map fst (snd (Out ! r)) = ExpectedCols
       \<and> map_of (snd (Out ! r)) c = Some ''.''"
proof -
  from assms(1) obtain Decoded Data where
    wf: "\<forall>row\<in>set Table. length (snd row) = length Names" and
    dlen: "length Decoded = length Table" and
    deach: "\<forall>r<length Table. collect (decode_cell json_loads) (snd (Table ! r)) = Inr (Decoded ! r)" and
    fold: "fold_err (\<lambda>(index, Name) Data. add_database Name (map (\<lambda>row. row ! index) Decoded) Data)
       (enumerate 0 Names) \<lparr>columns = [], cells = map (\<lambda>row. Map.empty) Table\<rparr> = Inr Data" and
    clen: "length (cells Data) = length Table" and
    olen: "length Out = length Table" and
    okeys: "\<forall>r<length Table. fst (Out ! r) = fst (Table ! r) \<and> map fst (snd (Out ! r)) = ExpectedCols" and
    ocells: "\<forall>r<length Table. (\<forall>c\<in>set ExpectedCols.
        \<exists>x text. (if c \<in> set (columns Data) then (cells Data ! r) c else Some NaN) = Some x
          \<and> flatten x = Inr text \<and> map_of (snd (Out ! r)) c = Some text)"
    by (rule CureBase_merge_InrD)
  have rawlen: "length (snd (Table ! r)) = length Names"
    using wf assms(4) by simp
  have dot: "Decoded ! r ! i = Dot"
  proof -
    from deach assms(4) have "collect (decode_cell json_loads) (snd (Table ! r)) = Inr (Decoded ! r)"
      by simp
    from collect_InrD [OF this] rawlen assms(5)
    have "decode_cell json_loads (snd (Table ! r) ! i) = Inr (Decoded ! r ! i)"
      by simp
    with assms(6) show ?thesis by (simp add: decode_cell_Dot)
  qed
  have inv: "length (cells Data) = length Table
      \<and> ((cells Data ! r) c = None \<or> (cells Data ! r) c = Some NaN)"
    using fold
  proof (rule fold_err_invariant
      [where P = "\<lambda>D. length (cells D) = length Table \<and> ((cells D ! r) c = None \<or> (cells D ! r) c = Some NaN)"])
    show "length (cells \<lparr>columns = [], cells = map (\<lambda>row. Map.empty) Table\<rparr>) = length Table \<and>
      ((cells \<lparr>columns = [], cells = map (\<lambda>row. Map.empty) Table\<rparr> ! r) c = None \<or>
       (cells \<lparr>columns = [], cells = map (\<lambda>row. Map.empty) Table\<rparr> ! r) c = Some NaN)"
      using assms(4) by simp
  next
    fix x t t'
    assume x: "x \<in> set (enumerate 0 Names)"
      and st: "(case x of (index, Name) \<Rightarrow> \<lambda>Data. add_database Name (map (\<lambda>row. row ! index) Decoded) Data) t = Inr t'"
      and P: "length (cells t) = length Table \<and> ((cells t ! r) c = None \<or> (cells t ! r) c = Some NaN)"
    obtain j Name where xj: "x = (j, Name)" by (cases x)
    from x xj have j: "j < length Names" "Name = Names ! j"
      by (auto simp: in_set_enumerate_eq)
    let ?Col = "map (\<lambda>row. row ! j) Decoded"
    from st xj have add: "add_database Name ?Col t = Inr t'" by simp
    have len: "length (cells t) = length ?Col" using P dlen by simp
    have rC: "r < length ?Col" using assms(4) dlen by simp
    have l': "length (cells t') = length Table"
      using add_database_length [OF add len] dlen by simp
    show "length (cells t') = length Table \<and> ((cells t' ! r) c = None \<or> (cells t' ! r) c = Some NaN)"
    proof (cases "j = i")
      case True
      then have "?Col ! r = Dot" using dot assms(4) dlen by simp
      from add_database_Dot [OF add len rC this, of c] P l' show ?thesis by auto
    next
      case False
      have "\<not> column_of Name c"
        unfolding j(2) using assms(2,3,5) j(1) False assms(8) by (rule other_database_column)
      from add_database_other [OF add len rC this] P l' show ?thesis by simp
    qed
  qed
  from ocells assms(4,7) obtain x tx where
    x: "(if c \<in> set (columns Data) then (cells Data ! r) c else Some NaN) = Some x"
    and t: "flatten x = Inr tx" "map_of (snd (Out ! r)) c = Some tx"
    by blast
  from x inv have "x = NaN"
    by (auto split: if_splits)
  with t have "map_of (snd (Out ! r)) c = Some ''.''"
    by (simp add: flatten_def)
  with olen okeys assms(4) show ?thesis by simp
qed










lemma merge_example:
  "CureBase_merge loads_known [''dbA'', ''dbB''] [''dbA.X'', ''dbB'']
     [(''v1'', [''ID=7B2258223A20317D,7B2258223A20327D,7B2258223A20327D'', ''.'']),
      (''v2'', [''.'', ''ID=7B7D''])]
   = Inr [(''v1'', [(''dbA.X'', ''1; 2''), (''dbB'', ''.'')]),
          (''v2'', [(''dbA.X'', ''.''), (''dbB'', ''yes'')])]"
  by code_simp




theorem CureBase_no_overlap_sentinel_witness:
  "CureBase_merge loads_known [''dbA'', ''dbB''] [''dbA.X'', ''dbB'']
     [(''v1'', [''ID=7B2258223A20317D,7B2258223A20327D,7B2258223A20327D'', ''.'']),
      (''v2'', [''.'', ''ID=7B7D''])]
   = Inr [(''v1'', [(''dbA.X'', ''1; 2''), (''dbB'', ''.'')]),
          (''v2'', [(''dbA.X'', ''.''), (''dbB'', ''yes'')])]
   \<and> map_of (snd ([(''v1'', [(''dbA.X'', ''1; 2''), (''dbB'', ''.'')]),
                    (''v2'', [(''dbA.X'', ''.''), (''dbB'', ''yes'')])] ! 0)) ''dbB'' = Some ''.''"
proof -
  have h2: "distinct [''dbA'', ''dbB'']" by simp
  have h3: "\<forall>n\<in>set [''dbA'', ''dbB'']. CHR ''.'' \<notin> set n" by simp
  have h4: "0 < length [(''v1'', [''ID=7B2258223A20317D,7B2258223A20327D,7B2258223A20327D'', ''.'']),
      (''v2'', [''.'', ''ID=7B7D''])]" by simp
  have h5: "1 < length [''dbA'', ''dbB'']" by simp
  have h6: "snd ([(''v1'', [''ID=7B2258223A20317D,7B2258223A20327D,7B2258223A20327D'', ''.'']),
      (''v2'', [''.'', ''ID=7B7D''])] ! 0) ! 1 = ''.''" by simp
  have h7: "''dbB'' \<in> set [''dbA.X'', ''dbB'']" by simp
  have h8: "column_of ([''dbA'', ''dbB''] ! 1) ''dbB''" by (simp add: column_of_def)
  from CureBase_no_overlap_sentinel [OF merge_example h2 h3 h4 h5 h6 h7 h8] merge_example
  show ?thesis by simp
qed

text \<open>
  Claim C5 as stated is about every configured database. With two databases of the same
  name, the variant below overlaps the first and not the second, and the second overlaps
  no variant: the column of that name is \<open>yes\<close>, not the sentinel.
\<close>

theorem CureBase_no_overlap_sentinel_counterexample:
  "CureBase_merge loads_known [''A'', ''A''] [''A'', ''A''] [(''v1'', [''ID=7B7D'', ''.''])]
   = Inr [(''v1'', [(''A'', ''yes''), (''A'', ''yes'')])]
   \<and> ''yes'' \<noteq> ''.''"
  by code_simp

end
